theory Spec2Isabelle
  imports Main "HOL-Library.Word" "HOL-Library.Multiset"
begin

section \<open>Machine integers and sentinels\<close>

type_synonym u16 = "16 word"
type_synonym u32 = "32 word"
type_synonym u64 = "64 word"

text \<open>
  Modelled from the spec: the sentinels \<open>NO_VAL16\<close>, \<open>NO_VAL\<close> and \<open>NO_VAL64\<close> are macros of
  a header that is not part of the snapshot; the spec only calls them sentinels. They get
  the values of the Slurm headers. No general theorem below unfolds them.
\<close>

definition NO_VAL16 :: u16 where "NO_VAL16 = 0xfffe"
definition NO_VAL :: u32 where "NO_VAL = 0xfffffffe"
definition NO_VAL64 :: u64 where "NO_VAL64 = 0xfffffffffffffffe"

section \<open>Bitmaps\<close>

text \<open>
  Modelled from the spec: the bit-string library (\<open>bitstr_t\<close> and \<open>bit_*\<close>) is not part of
  the snapshot. The spec describes it as a set of indices with test, set, clear, popcount,
  range popcount, overlap and first bit. A bitmap is the list of its bits; a \<open>bitstr_t *\<close>
  that may be \<open>NULL\<close> is a \<open>bitstr option\<close>.
\<close>

type_synonym bitstr = "bool list"

definition bit_size :: "bitstr \<Rightarrow> nat" where
  "bit_size b = length b"

definition bit_alloc :: "nat \<Rightarrow> bitstr" where
  "bit_alloc n = replicate n False"

definition bit_test :: "bitstr \<Rightarrow> nat \<Rightarrow> bool" where
  "bit_test b i = (b ! i)"

definition bit_set :: "bitstr \<Rightarrow> nat \<Rightarrow> bitstr" where
  "bit_set b i = b[i := True]"

definition bit_clear :: "bitstr \<Rightarrow> nat \<Rightarrow> bitstr" where
  "bit_clear b i = b[i := False]"

definition bit_set_count :: "bitstr \<Rightarrow> nat" where
  "bit_set_count b = length (filter id b)"

definition bit_set_count_range :: "bitstr \<Rightarrow> nat \<Rightarrow> nat \<Rightarrow> nat" where
  "bit_set_count_range b start fin = length (filter id (drop start (take fin b)))"

definition bit_overlap :: "bitstr \<Rightarrow> bitstr \<Rightarrow> nat" where
  "bit_overlap a b = length (filter (\<lambda>(x, y). x \<and> y) (zip a b))"

fun bit_ffs_from :: "nat \<Rightarrow> bitstr \<Rightarrow> int" where
  "bit_ffs_from i [] = -1"
| "bit_ffs_from i (x # xs) = (if x then int i else bit_ffs_from (Suc i) xs)"

definition bit_ffs :: "bitstr \<Rightarrow> int" where
  "bit_ffs b = bit_ffs_from 0 b"

section \<open>Data model\<close>

text \<open>
  The structures are declared in headers outside the snapshot; the fields below are the
  ones \<open>gres_select_filter.c\<close> reads and writes, with the widths its local variables and
  comparisons give them. A C array that may be \<open>NULL\<close> is an optional list. The three
  output arrays of the job state have one entry per node of the cluster; they are maps
  from the node index, \<open>None\<close> while the array is not allocated. An index beyond the
  allocation is undefined behaviour in C and has no counterpart here.
\<close>

record gres_job_state =
  cpus_per_gres :: u16
  def_cpus_per_gres :: u16
  ntasks_per_gres :: u16
  mem_per_gres :: u64
  def_mem_per_gres :: u64
  gres_per_job :: u64
  gres_per_node :: u64
  gres_per_socket :: u64
  gres_per_task :: u64
  type_id :: u32
  total_gres :: u64
  total_node_cnt :: u32
  gres_bit_select :: "(nat \<Rightarrow> bitstr option) option"
  gres_cnt_node_select :: "(nat \<Rightarrow> u64) option"
  gres_per_bit_select :: "(nat \<Rightarrow> u64 list option) option"

record gres_node_state =
  gres_cnt_avail :: u64
  gres_cnt_alloc :: u64
  gres_bit_alloc :: "bitstr option"
  topo_cnt :: nat
  topo_gres_cnt_avail :: "u64 list option"
  topo_gres_cnt_alloc :: "u64 list option"
  topo_gres_bitmap :: "bitstr option list option"
  topo_type_id :: "u32 list"
  link_len :: int
  links_cnt :: "int list list"

text \<open>
  \<open>gres_state_t\<close>: the wrapper a \<open>sock_gres\<close> points to. Its \<open>gres_data\<close> is the address of
  the job or node state in the heap, \<open>None\<close> for \<open>NULL\<close>.
\<close>

record gres_state =
  plugin_id :: u32
  config_flags :: u32
  gres_data :: "nat option"

record sock_gres =
  bits_any_sock :: "bitstr option"
  bits_by_sock :: "bitstr option list option"
  cnt_by_sock :: "u64 list option"
  gres_state_job :: gres_state
  gres_state_node :: gres_state
  max_node_gres :: u64
  sock_cnt :: nat
  total_cnt :: u64

text \<open>
  The job and node GRES states live in a heap: the \<open>sock_gres\<close> records of all nodes of a
  job point to the same job state.
\<close>

record heap =
  job_heap :: "nat \<Rightarrow> gres_job_state"
  node_heap :: "nat \<Rightarrow> gres_node_state"

definition js_of :: "heap \<Rightarrow> sock_gres \<Rightarrow> gres_job_state" where
  "js_of h sg = job_heap h (the (gres_data (gres_state_job sg)))"

definition ns_of :: "heap \<Rightarrow> sock_gres \<Rightarrow> gres_node_state" where
  "ns_of h sg = node_heap h (the (gres_data (gres_state_node sg)))"

section \<open>Feasibility filter\<close>

text \<open>
  \<open>_build_avail_cores_by_sock\<close>: socket \<open>s\<close> is available when one of its cores is set in
  the core bitmap; the scan stops altogether at the end of the bitmap (\<open>goto fini\<close>).
\<close>

function build_avail_loop ::
  "bitstr \<Rightarrow> nat \<Rightarrow> nat \<Rightarrow> nat \<Rightarrow> nat \<Rightarrow> bool list \<Rightarrow> bool list" where
  "build_avail_loop core_bitmap sockets cores_per_sock s c avail =
     (if s < sockets then
        (if c < cores_per_sock then
           (let i = s * cores_per_sock + c in
            if i \<ge> bit_size core_bitmap then avail
            else if bit_test core_bitmap i
              then build_avail_loop core_bitmap sockets cores_per_sock (Suc s) 0 (avail[s := True])
              else build_avail_loop core_bitmap sockets cores_per_sock s (Suc c) avail)
         else build_avail_loop core_bitmap sockets cores_per_sock (Suc s) 0 avail)
      else avail)"
  by pat_completeness auto
termination
  by (relation "measures [\<lambda>(cb, sockets, cps, s, c, av). sockets - s,
                          \<lambda>(cb, sockets, cps, s, c, av). cps - c]") auto

definition build_avail_cores_by_sock :: "bitstr \<Rightarrow> u16 \<Rightarrow> u16 \<Rightarrow> bool list" where
  "build_avail_cores_by_sock core_bitmap sockets cores_per_sock =
     build_avail_loop core_bitmap (unat sockets) (unat cores_per_sock) 0 0
       (replicate (unat sockets) False)"

text \<open>\<open>_set_max_node_gres\<close>: set \<open>max_node_gres\<close> if it is unset or greater than \<open>val\<close>.\<close>

definition set_max_node_gres :: "sock_gres \<Rightarrow> u64 \<Rightarrow> bool \<times> sock_gres" where
  "set_max_node_gres sg val =
     (if val \<noteq> 0 \<and> (max_node_gres sg = 0 \<or> max_node_gres sg > val)
      then (True, sg\<lparr>max_node_gres := val\<rparr>)
      else (False, sg))"

text \<open>The scalar arguments of \<open>gres_select_filter_remove_unusable\<close>.\<close>

record filter_args =
  avail_mem :: u64
  max_cpus :: u16
  enforce_binding :: bool
  sockets :: u16
  cores_per_sock :: u16
  cpus_per_core :: u16
  sock_per_node :: u32
  task_per_node :: u16
  cpus_per_task :: u16
  whole_node :: bool

text \<open>Lines 157 to 177: the least count the request needs on this node.\<close>

definition min_gres_of :: "filter_args \<Rightarrow> gres_job_state \<Rightarrow> sock_gres \<Rightarrow> u64" where
  "min_gres_of a js sg =
     (let min_gres = (if whole_node a then total_cnt sg
                      else if gres_per_node js \<noteq> 0 then gres_per_node js
                      else 1);
          min_gres = (if gres_per_socket js \<noteq> 0
                      then (let tmp = gres_per_socket js;
                                tmp = (if sock_per_node a \<noteq> NO_VAL
                                       then tmp * ucast (sock_per_node a) else tmp)
                            in max min_gres tmp)
                      else min_gres);
          min_gres = (if gres_per_task js \<noteq> 0
                      then (let tmp = gres_per_task js;
                                tmp = (if task_per_node a \<noteq> NO_VAL16
                                       then tmp * ucast (task_per_node a) else tmp)
                            in max min_gres tmp)
                      else min_gres)
      in min_gres)"

text \<open>Lines 179 to 186.\<close>

definition cpus_per_gres_of :: "filter_args \<Rightarrow> gres_job_state \<Rightarrow> u16" where
  "cpus_per_gres_of a js =
     (if cpus_per_gres js \<noteq> 0 then cpus_per_gres js
      else if ntasks_per_gres js \<noteq> 0 \<and> ntasks_per_gres js \<noteq> NO_VAL16
        then ntasks_per_gres js * cpus_per_task a
      else def_cpus_per_gres js)"

text \<open>Lines 200 to 203.\<close>

definition mem_per_gres_of :: "gres_job_state \<Rightarrow> u64" where
  "mem_per_gres_of js =
     (if mem_per_gres js \<noteq> 0 then mem_per_gres js else def_mem_per_gres js)"

text \<open>
  Lines 227 to 233: under enforce-binding, the sockets without an available core lose
  their bucket, and the total shrinks by it.
\<close>

fun prune_socks :: "bool list \<Rightarrow> nat list \<Rightarrow> u64 \<Rightarrow> u64 list \<Rightarrow> u64 \<times> u64 list" where
  "prune_socks avail [] tot cbs = (tot, cbs)"
| "prune_socks avail (s # ss) tot cbs =
     (if \<not> avail ! s
      then prune_socks avail ss (tot - cbs ! s) (cbs[s := 0])
      else prune_socks avail ss tot cbs)"

text \<open>Lines 237 to 242: the same count without touching the record.\<close>

fun near_socks :: "bool list \<Rightarrow> nat list \<Rightarrow> u64 \<Rightarrow> u64 list \<Rightarrow> u64" where
  "near_socks avail [] near cbs = near"
| "near_socks avail (s # ss) near cbs =
     (if \<not> avail ! s
      then near_socks avail ss (near - cbs ! s) cbs
      else near_socks avail ss near cbs)"

text \<open>Lines 187 to 198: too few CPUs for the counts the request asks for.\<close>

definition cpus_insufficient :: "filter_args \<Rightarrow> gres_job_state \<Rightarrow> bool" where
  "cpus_insufficient a js =
     (let cpus_per_gres = cpus_per_gres_of a js;
          max_gres = (ucast (max_cpus a div cpus_per_gres) :: u64)
      in cpus_per_gres \<noteq> 0 \<and>
         (max_gres = 0 \<or> gres_per_node js > max_gres \<or> gres_per_task js > max_gres \<or>
          gres_per_socket js > max_gres))"

text \<open>The guard of lines 204 and 275: a memory need, and memory is tracked.\<close>

definition mem_tracked :: "filter_args \<Rightarrow> gres_job_state \<Rightarrow> bool" where
  "mem_tracked a js = (mem_per_gres_of js \<noteq> 0 \<and> avail_mem a \<noteq> NO_VAL64)"

text \<open>
  Lines 226 to 245: the binding step. It returns the record and \<open>near_gres_cnt\<close>.
\<close>

definition bind_socks :: "filter_args \<Rightarrow> bool list option \<Rightarrow> sock_gres \<Rightarrow> sock_gres \<times> u64" where
  "bind_socks a acbs sg =
     (case cnt_by_sock sg of
        Some cbs \<Rightarrow>
          if enforce_binding a
          then (let (t, cbs') = prune_socks (the acbs) [0..<unat (sockets a)] (total_cnt sg) cbs;
                    sg' = sg\<lparr>total_cnt := t, cnt_by_sock := Some cbs'\<rparr>
                in (sg', total_cnt sg'))
          else (sg, near_socks (the acbs) [0..<unat (sockets a)] (total_cnt sg) cbs)
      | None \<Rightarrow> (sg, total_cnt sg))"

text \<open>Lines 247 to 255: \<open>gres_per_node\<close>, else \<open>gres_per_job\<close>, caps \<open>max_node_gres\<close>.\<close>

definition limit_max_node_gres :: "filter_args \<Rightarrow> gres_job_state \<Rightarrow> sock_gres \<Rightarrow> sock_gres" where
  "limit_max_node_gres a js sg =
     (if \<not> whole_node a
      then (case set_max_node_gres sg (gres_per_node js) of
              (True, sg') \<Rightarrow> sg'
            | (False, sg') \<Rightarrow> snd (set_max_node_gres sg' (gres_per_job js)))
      else sg)"

text \<open>Lines 258 to 264: the guard of the second CPU check, and its \<open>max_gres\<close>.\<close>

definition cpu_recheck :: "filter_args \<Rightarrow> gres_job_state \<Rightarrow> bool" where
  "cpu_recheck a js =
     (cpus_per_gres_of a js \<noteq> 0 \<and> (ntasks_per_gres js = NO_VAL16 \<or> \<not> whole_node a))"

text \<open>
  Lines 261 to 264: \<open>cpu_cnt\<close> is a C \<open>int\<close>, so the product with \<open>cpus_per_core\<close> is taken in
  32 bits, and the division by \<open>cpus_per_gres\<close> is the signed one of C, which rounds toward
  zero; the quotient is converted to the unsigned 64-bit \<open>max_gres\<close>.
\<close>

definition cpu_max_gres :: "filter_args \<Rightarrow> bitstr \<Rightarrow> gres_job_state \<Rightarrow> u64" where
  "cpu_max_gres a core_bitmap js =
     (let cpu_cnt = (of_nat (bit_set_count core_bitmap) * ucast (cpus_per_core a) :: 32 word);
          q = sint cpu_cnt;
          d = uint (cpus_per_gres_of a js)
      in of_int (if 0 \<le> q then q div d else - ((- q) div d)))"

text \<open>Lines 296 to 299: \<open>near_gpus\<close> grows by \<open>near_gres_cnt\<close>, but not beyond \<open>0xff\<close>.\<close>

definition near_add :: "u16 \<Rightarrow> u64 \<Rightarrow> u16" where
  "near_add near_gpus near_gres_cnt =
     (if ucast near_gpus + near_gres_cnt < 0xff
      then near_gpus + ucast near_gres_cnt
      else 0xff)"

text \<open>Lines 204 to 215: the memory limit, set before anything else is checked.\<close>

definition mem_insufficient :: "filter_args \<Rightarrow> gres_job_state \<Rightarrow> bool" where
  "mem_insufficient a js = (mem_tracked a js \<and> \<not> mem_per_gres_of js \<le> avail_mem a)"

definition note_mem_limit :: "filter_args \<Rightarrow> gres_job_state \<Rightarrow> sock_gres \<Rightarrow> sock_gres" where
  "note_mem_limit a js sg =
     (if mem_tracked a js
      then sg\<lparr>max_node_gres := avail_mem a div mem_per_gres_of js\<rparr> else sg)"

text \<open>Lines 217 to 219: \<open>avail_cores_by_sock\<close> is built once, when a record first needs it.\<close>

definition lazy_avail_cores ::
  "filter_args \<Rightarrow> bitstr \<Rightarrow> sock_gres \<Rightarrow> bool list option \<Rightarrow> bool list option" where
  "lazy_avail_cores a core_bitmap sg acbs =
     (if cnt_by_sock sg \<noteq> None \<and> acbs = None
      then Some (build_avail_cores_by_sock core_bitmap (sockets a) (cores_per_sock a))
      else acbs)"

text \<open>Lines 270 to 273 and 275 to 280: the caps from the CPU count and from memory.\<close>

definition cap_by_cpus :: "filter_args \<Rightarrow> bitstr \<Rightarrow> gres_job_state \<Rightarrow> sock_gres \<Rightarrow> sock_gres" where
  "cap_by_cpus a core_bitmap js sg =
     (let max_gres = cpu_max_gres a core_bitmap js
      in if cpu_recheck a js \<and> (max_node_gres sg = 0 \<or> max_node_gres sg > max_gres)
         then sg\<lparr>max_node_gres := max_gres\<rparr> else sg)"

definition cap_by_mem :: "filter_args \<Rightarrow> gres_job_state \<Rightarrow> sock_gres \<Rightarrow> sock_gres" where
  "cap_by_mem a js sg =
     (if mem_tracked a js
      then sg\<lparr>total_cnt := min (total_cnt sg) (avail_mem a div mem_per_gres_of js)\<rparr>
      else sg)"

text \<open>Lines 281 to 283: the final test of a turn.\<close>

definition below_min :: "u64 \<Rightarrow> sock_gres \<Rightarrow> bool" where
  "below_min min_gres sg =
     (total_cnt sg < min_gres \<or> (max_node_gres sg \<noteq> 0 \<and> max_node_gres sg < min_gres))"

text \<open>Lines 293 to 295: \<open>near_gres_cnt\<close> is capped by a set \<open>max_node_gres\<close>.\<close>

definition cap_near :: "sock_gres \<Rightarrow> u64 \<Rightarrow> u64" where
  "cap_near sg near_gres_cnt =
     (if max_node_gres sg \<noteq> 0 \<and> max_node_gres sg < near_gres_cnt
      then max_node_gres sg else near_gres_cnt)"

text \<open>
  Modelled from the spec: \<open>gres_id_sharing\<close> is defined outside the snapshot; the spec
  describes it as the predicate "this kind is a physical device that can be shared". It is
  the parameter \<open>sharing\<close> of the filter.
\<close>

text \<open>
  One turn of the \<open>while\<close> loop over the list, lines 156 to 301. The result is: whether the
  turn ended in \<open>rc = -1; break\<close>, the record as the turn leaves it, the lazily built
  \<open>avail_cores_by_sock\<close>, and the two counters. The locals \<open>cpus_per_gres\<close>, \<open>mem_per_gres\<close>,
  \<open>max_gres\<close> and \<open>near_gres_cnt\<close> are assigned in every turn before they are read.
\<close>

definition filter_one ::
  "(u32 \<Rightarrow> bool) \<Rightarrow> filter_args \<Rightarrow> bitstr \<Rightarrow> gres_job_state \<Rightarrow>
   sock_gres \<Rightarrow> bool list option \<Rightarrow> u16 \<Rightarrow> u16 \<Rightarrow>
   bool \<times> sock_gres \<times> bool list option \<times> u16 \<times> u16" where
  "filter_one sharing a core_bitmap js sg acbs avail_gpus near_gpus =
     (let min_gres = min_gres_of a js sg in
      if cpus_insufficient a js
      then (True, sg, acbs, avail_gpus, near_gpus)
      else
      if mem_insufficient a js
      then (True, sg, acbs, avail_gpus, near_gpus)
      else
      let sg = note_mem_limit a js sg;
          acbs = lazy_avail_cores a core_bitmap sg acbs;
          (sg, near_gres_cnt) = bind_socks a acbs sg;
          sg = limit_max_node_gres a js sg
      in
      if cpu_recheck a js \<and> cpu_max_gres a core_bitmap js = 0
      then (True, sg, acbs, avail_gpus, near_gpus)
      else
      let sg = cap_by_cpus a core_bitmap js sg;
          sg = cap_by_mem a js sg
      in
      if below_min min_gres sg
      then (True, sg, acbs, avail_gpus, near_gpus)
      else
      if sharing (plugin_id (gres_state_job sg))
      then (False, sg, acbs, avail_gpus + ucast (total_cnt sg),
            near_add near_gpus (cap_near sg near_gres_cnt))
      else (False, sg, acbs, avail_gpus, near_gpus))"

text \<open>
  The loop over the list. The records are mutated in place, so the list the caller holds
  afterwards has the records the loop left, also when it stopped at a \<open>break\<close>.
\<close>

fun filter_loop ::
  "(u32 \<Rightarrow> bool) \<Rightarrow> filter_args \<Rightarrow> bitstr \<Rightarrow> heap \<Rightarrow> sock_gres list \<Rightarrow>
   bool list option \<Rightarrow> u16 \<Rightarrow> u16 \<Rightarrow> int \<times> sock_gres list \<times> u16 \<times> u16" where
  "filter_loop sharing a cb h [] acbs avail_gpus near_gpus = (0, [], avail_gpus, near_gpus)"
| "filter_loop sharing a cb h (sg # rest) acbs avail_gpus near_gpus =
     (case filter_one sharing a cb (js_of h sg) sg acbs avail_gpus near_gpus of
        (True, sg', acbs', ag, ng) \<Rightarrow> (-1, sg' # rest, ag, ng)
      | (False, sg', acbs', ag, ng) \<Rightarrow>
          (case filter_loop sharing a cb h rest acbs' ag ng of
             (rc, rest', ag', ng') \<Rightarrow> (rc, sg' # rest', ag', ng')))"

text \<open>
  \<open>gres_select_filter_remove_unusable\<close>. The list and the core bitmap may be \<open>NULL\<close>. The
  result is the return code, the list as the call leaves it, \<open>*avail_gpus\<close> and \<open>*near_gpus\<close>.
\<close>

definition gres_select_filter_remove_unusable ::
  "(u32 \<Rightarrow> bool) \<Rightarrow> heap \<Rightarrow> sock_gres list option \<Rightarrow> filter_args \<Rightarrow> bitstr option \<Rightarrow>
   int \<times> sock_gres list option \<times> u16 \<times> u16" where
  "gres_select_filter_remove_unusable sharing h sock_gres_list a core_bitmap =
     (case (core_bitmap, sock_gres_list) of
        (Some cb, Some sgs) \<Rightarrow>
          if length sgs = 0 then (0, sock_gres_list, 0, 0)
          else (case filter_loop sharing a cb h sgs None 0 0 of
                  (rc, sgs', ag, ng) \<Rightarrow> (rc, Some sgs', ag, ng))
      | _ \<Rightarrow> (0, sock_gres_list, 0, 0))"

section \<open>Selection: shared GRES\<close>

text \<open>The status codes the selection returns.\<close>

datatype status = SLURM_SUCCESS | SLURM_ERROR | ESLURM_INVALID_GRES | ESLURM_NODE_NOT_AVAIL

text \<open>
  Modelled from the spec: the two cluster-level policy flags of
  \<open>slurm_conf.select_type_param\<close>, and \<open>gres_use_busy_dev\<close> and \<open>gres_id_shared\<close>, which are
  defined outside the snapshot. They are parameters of the selection.
\<close>

record conf =
  LL_SHARED_GRES :: bool
  MULTIPLE_SHARING_GRES_PJ :: bool
  gres_use_busy_dev :: "gres_state \<Rightarrow> gres_node_state \<Rightarrow> bool"
  gres_id_shared :: "u32 \<Rightarrow> bool"

definition ANY_SOCK_TEST :: int where
  "ANY_SOCK_TEST = -1"

text \<open>The job state's outputs for one node: \<open>gres_js->gres_bit_select[n]\<close> and so on.\<close>

definition sel_bits :: "gres_job_state \<Rightarrow> nat \<Rightarrow> bitstr" where
  "sel_bits js n = the (the (gres_bit_select js) n)"

definition sel_cnt :: "gres_job_state \<Rightarrow> nat \<Rightarrow> u64" where
  "sel_cnt js n = the (gres_cnt_node_select js) n"

definition sel_per_bit :: "gres_job_state \<Rightarrow> nat \<Rightarrow> u64 list" where
  "sel_per_bit js n = the (the (gres_per_bit_select js) n)"

definition set_sel_bits :: "gres_job_state \<Rightarrow> nat \<Rightarrow> bitstr option \<Rightarrow> gres_job_state" where
  "set_sel_bits js n b = js\<lparr>gres_bit_select := Some ((the (gres_bit_select js))(n := b))\<rparr>"

definition set_sel_cnt :: "gres_job_state \<Rightarrow> nat \<Rightarrow> u64 \<Rightarrow> gres_job_state" where
  "set_sel_cnt js n v = js\<lparr>gres_cnt_node_select := Some ((the (gres_cnt_node_select js))(n := v))\<rparr>"

definition set_sel_per_bit :: "gres_job_state \<Rightarrow> nat \<Rightarrow> u64 list option \<Rightarrow> gres_job_state" where
  "set_sel_per_bit js n v =
     js\<lparr>gres_per_bit_select := Some ((the (gres_per_bit_select js))(n := v))\<rparr>"

text \<open>
  \<open>_init_gres_per_bit_select\<close>: the outer array is allocated on first use, the row of the
  node is a fresh array of zeros, as long as the node's selection bitmap.
\<close>

definition init_gres_per_bit_select :: "gres_job_state \<Rightarrow> nat \<Rightarrow> gres_job_state" where
  "init_gres_per_bit_select js node_inx =
     (let js = (if gres_per_bit_select js = None
                then js\<lparr>gres_per_bit_select := Some (\<lambda>_. None)\<rparr> else js)
      in set_sel_per_bit js node_inx
           (Some (replicate (bit_size (sel_bits js node_inx)) 0)))"

text \<open>
  The head of both pickers (lines 329 to 340 and 612 to 623): the bitmap of the socket, or
  of the GRES bound to no socket; \<open>None\<close> when the picker returns at once.
\<close>

definition sock_bits_of :: "sock_gres \<Rightarrow> int \<Rightarrow> bitstr option" where
  "sock_bits_of sg socket_index =
     (if socket_index = ANY_SOCK_TEST then bits_any_sock sg
      else (case bits_by_sock sg of
              None \<Rightarrow> None
            | Some bbs \<Rightarrow> bbs ! nat socket_index))"

text \<open>Lines 354 to 356: what is left of slot \<open>t\<close>, in unsigned 64-bit arithmetic.\<close>

definition shared_cnt_avail :: "gres_node_state \<Rightarrow> gres_job_state \<Rightarrow> nat \<Rightarrow> nat \<Rightarrow> u64" where
  "shared_cnt_avail ns js node_inx t =
     the (topo_gres_cnt_avail ns) ! t - the (topo_gres_cnt_alloc ns) ! t -
     sel_per_bit js node_inx ! t"

text \<open>Lines 349 to 368: the tests that make the loop pass over slot \<open>t\<close>.\<close>

definition shared_skip ::
  "gres_node_state \<Rightarrow> bool \<Rightarrow> bool \<Rightarrow> bool \<Rightarrow> nat \<Rightarrow> bitstr \<Rightarrow> gres_job_state \<Rightarrow> u64 \<Rightarrow>
   nat \<Rightarrow> bool" where
  "shared_skip ns use_busy_dev use_single_dev no_repeat node_inx sock_bits js gres_needed t =
     ((type_id js \<noteq> 0 \<and> type_id js \<noteq> topo_type_id ns ! t) \<or>
      (use_busy_dev \<and> the (topo_gres_cnt_alloc ns) ! t = 0) \<or>
      shared_cnt_avail ns js node_inx t < (if use_single_dev then gres_needed else 1) \<or>
      \<not> bit_test sock_bits t \<or>
      (no_repeat \<and> bit_test (sel_bits js node_inx) t) \<or>
      min (shared_cnt_avail ns js node_inx t) gres_needed = 0)"

text \<open>Lines 370 to 372: slot \<open>t\<close> gives \<open>cnt_to_alloc\<close>.\<close>

definition shared_take :: "gres_job_state \<Rightarrow> nat \<Rightarrow> nat \<Rightarrow> u64 \<Rightarrow> gres_job_state" where
  "shared_take js node_inx t cnt_to_alloc =
     (let js = set_sel_bits js node_inx (Some (bit_set (sel_bits js node_inx) t));
          js = set_sel_cnt js node_inx (sel_cnt js node_inx + cnt_to_alloc);
          row = sel_per_bit js node_inx
      in set_sel_per_bit js node_inx (Some (row[t := row ! t + cnt_to_alloc])))"

text \<open>
  The slots in the order the loop of \<open>_pick_shared_gres_topo\<close> visits them: turn \<open>j\<close> looks
  at \<open>topo_index[j]\<close>, or at \<open>j\<close> itself without an index array.
\<close>

definition shared_visit_order :: "nat list option \<Rightarrow> nat \<Rightarrow> nat list" where
  "shared_visit_order topo_index n =
     map (\<lambda>j. case topo_index of Some ti \<Rightarrow> ti ! j | None \<Rightarrow> j) [0..<n]"

text \<open>
  The loop of \<open>_pick_shared_gres_topo\<close> over the slots; it ends when nothing is needed any
  more.
\<close>

fun pick_shared_loop ::
  "gres_node_state \<Rightarrow> bool \<Rightarrow> bool \<Rightarrow> bool \<Rightarrow> nat \<Rightarrow> bitstr \<Rightarrow> nat list \<Rightarrow>
   gres_job_state \<times> u64 \<Rightarrow> gres_job_state \<times> u64" where
  "pick_shared_loop ns use_busy_dev use_single_dev no_repeat node_inx sock_bits []
     (js, gres_needed) = (js, gres_needed)"
| "pick_shared_loop ns use_busy_dev use_single_dev no_repeat node_inx sock_bits (t # rest)
     (js, gres_needed) =
     (if gres_needed = 0 then (js, gres_needed)
      else
        if shared_skip ns use_busy_dev use_single_dev no_repeat node_inx sock_bits js gres_needed t
        then pick_shared_loop ns use_busy_dev use_single_dev no_repeat node_inx sock_bits rest
               (js, gres_needed)
        else
          let cnt_to_alloc = min (shared_cnt_avail ns js node_inx t) gres_needed
          in pick_shared_loop ns use_busy_dev use_single_dev no_repeat node_inx sock_bits rest
               (shared_take js node_inx t cnt_to_alloc, gres_needed - cnt_to_alloc))"

text \<open>\<open>_pick_shared_gres_topo\<close>. The state is the job state and \<open>*gres_needed\<close>.\<close>

definition pick_shared_gres_topo ::
  "sock_gres \<Rightarrow> gres_node_state \<Rightarrow> bool \<Rightarrow> bool \<Rightarrow> bool \<Rightarrow> nat \<Rightarrow> int \<Rightarrow> nat list option \<Rightarrow>
   gres_job_state \<times> u64 \<Rightarrow> gres_job_state \<times> u64" where
  "pick_shared_gres_topo sg ns use_busy_dev use_single_dev no_repeat node_inx socket_index
     topo_index st =
     (case sock_bits_of sg socket_index of
        None \<Rightarrow> st
      | Some sock_bits \<Rightarrow>
          if topo_gres_cnt_alloc ns = None \<or> topo_gres_cnt_avail ns = None then st
          else pick_shared_loop ns use_busy_dev use_single_dev no_repeat node_inx sock_bits
                 (shared_visit_order topo_index (topo_cnt ns)) st)"

text \<open>
  Modelled from the spec: \<open>qsort\<close> is the C library's. It returns the elements ordered by the
  comparator and promises nothing about the order of elements that compare equal. The
  model is the insertion sort that keeps equal elements in their order; the theorems
  below rely on the result being ordered and a permutation only.
\<close>

fun qsort_insert :: "('a \<Rightarrow> 'a \<Rightarrow> int) \<Rightarrow> 'a \<Rightarrow> 'a list \<Rightarrow> 'a list" where
  "qsort_insert cmp x [] = [x]"
| "qsort_insert cmp x (y # ys) =
     (if cmp x y \<le> 0 then x # y # ys else y # qsort_insert cmp x ys)"

definition qsort :: "('a \<Rightarrow> 'a \<Rightarrow> int) \<Rightarrow> 'a list \<Rightarrow> 'a list" where
  "qsort cmp xs = foldr (qsort_insert cmp) xs []"

text \<open>
  \<open>nonalloc_gres[t]\<close> of \<open>_get_sorted_topo_by_least_loaded\<close>: an \<open>int64_t\<close> that the mixed
  arithmetic with the unsigned counters computes modulo \<open>2^64\<close>, with an unsigned
  division; a slot without capacity keeps the 0 of \<open>xcalloc\<close>.
\<close>

definition nonalloc_gres :: "gres_node_state \<Rightarrow> nat \<Rightarrow> u64" where
  "nonalloc_gres ns t =
     (if the (topo_gres_cnt_avail ns) ! t = 0 then 0
      else ((the (topo_gres_cnt_avail ns) ! t - the (topo_gres_cnt_alloc ns) ! t) *
            gres_cnt_avail ns) div the (topo_gres_cnt_avail ns) ! t)"

text \<open>\<open>_sort_topo_by_avail_cnt\<close>: the comparator, on the signed reading of the counts.\<close>

definition sort_topo_by_avail_cnt :: "gres_node_state \<Rightarrow> nat \<Rightarrow> nat \<Rightarrow> int" where
  "sort_topo_by_avail_cnt ns x y =
     (let cx = sint (nonalloc_gres ns x); cy = sint (nonalloc_gres ns y)
      in if cx < cy then 1 else if cx > cy then -1 else 0)"

definition get_sorted_topo_by_least_loaded :: "gres_node_state \<Rightarrow> nat list" where
  "get_sorted_topo_by_least_loaded ns =
     qsort (sort_topo_by_avail_cnt ns) [0..<topo_cnt ns]"

text \<open>
  The two socket loops of \<open>_pick_shared_gres\<close>: over the sockets flagged in \<open>used_sock\<close>
  (\<open>flagged = True\<close>), and over the others.
\<close>

fun pick_shared_socks ::
  "sock_gres \<Rightarrow> gres_node_state \<Rightarrow> bool \<Rightarrow> bool \<Rightarrow> bool \<Rightarrow> nat \<Rightarrow> nat list option \<Rightarrow>
   u32 list \<Rightarrow> bool \<Rightarrow> nat list \<Rightarrow> gres_job_state \<times> u64 \<Rightarrow> gres_job_state \<times> u64" where
  "pick_shared_socks sg ns use_busy_dev use_single_dev no_repeat node_inx topo_index used_sock
     flagged [] st = st"
| "pick_shared_socks sg ns use_busy_dev use_single_dev no_repeat node_inx topo_index used_sock
     flagged (s # ss) st =
     (if snd st = 0 then st
      else if (used_sock ! s \<noteq> 0) \<noteq> flagged
        then pick_shared_socks sg ns use_busy_dev use_single_dev no_repeat node_inx topo_index
               used_sock flagged ss st
      else pick_shared_socks sg ns use_busy_dev use_single_dev no_repeat node_inx topo_index
             used_sock flagged ss
             (pick_shared_gres_topo sg ns use_busy_dev use_single_dev no_repeat node_inx (int s)
                topo_index st))"

text \<open>
  \<open>_pick_shared_gres\<close>. Lines 426 to 431 make the index array under the least-loaded
  policy. The test \<open>gres_needed && !enforce_binding\<close> of line 455 is on the pointer, which
  is never \<open>NULL\<close>.
\<close>

definition shared_topo_index :: "conf \<Rightarrow> gres_node_state \<Rightarrow> nat list option" where
  "shared_topo_index cf ns =
     (if LL_SHARED_GRES cf then Some (get_sorted_topo_by_least_loaded ns) else None)"

definition pick_shared_gres ::
  "conf \<Rightarrow> sock_gres \<Rightarrow> gres_node_state \<Rightarrow> nat \<Rightarrow> bool \<Rightarrow> bool \<Rightarrow> bool \<Rightarrow> bool \<Rightarrow> u32 list \<Rightarrow>
   gres_job_state \<times> u64 \<Rightarrow> gres_job_state \<times> u64" where
  "pick_shared_gres cf sg ns node_inx use_busy_dev use_single_dev no_repeat enforce_bind
     used_sock st =
     (let topo_index = shared_topo_index cf ns;
          st = pick_shared_socks sg ns use_busy_dev use_single_dev no_repeat node_inx topo_index
                 used_sock True [0..<sock_cnt sg] st;
          st = (if snd st \<noteq> 0
                then pick_shared_gres_topo sg ns use_busy_dev use_single_dev no_repeat node_inx
                       ANY_SOCK_TEST topo_index st
                else st)
      in if \<not> enforce_bind
         then pick_shared_socks sg ns use_busy_dev use_single_dev no_repeat node_inx topo_index
                used_sock False [0..<sock_cnt sg] st
         else st)"

text \<open>\<open>_set_shared_node_bits\<close>: the return code and the job state.\<close>

definition set_shared_node_bits ::
  "conf \<Rightarrow> nat \<Rightarrow> sock_gres \<Rightarrow> gres_node_state \<Rightarrow> bool \<Rightarrow> u32 list \<Rightarrow> gres_job_state \<Rightarrow>
   status \<times> gres_job_state" where
  "set_shared_node_bits cf node_inx sg ns enforce_bind used_sock js =
     (let use_busy_dev = gres_use_busy_dev cf (gres_state_node sg) ns;
          gres_needed = gres_per_node js;
          st = pick_shared_gres cf sg ns node_inx use_busy_dev True False enforce_bind used_sock
                 (js, gres_needed);
          st = (if snd st \<noteq> 0 \<and> MULTIPLE_SHARING_GRES_PJ cf
                then pick_shared_gres cf sg ns node_inx use_busy_dev False False enforce_bind
                       used_sock st
                else st)
      in (if snd st \<noteq> 0 then ESLURM_INVALID_GRES else SLURM_SUCCESS, fst st))"

text \<open>\<open>_get_task_cnt_node\<close>: the tasks of the job on the node.\<close>

definition get_task_cnt_node :: "u32 list option \<Rightarrow> nat \<Rightarrow> u32" where
  "get_task_cnt_node tasks_per_socket n_sock =
     (case tasks_per_socket of
        None \<Rightarrow> 1
      | Some tps \<Rightarrow> sum_list (map (\<lambda>s. tps ! s) [0..<n_sock]))"

text \<open>
  The inner loop of \<open>_set_shared_task_bits\<close>, one turn per task of the socket; a task
  that cannot be served ends the loop with \<open>ESLURM_INVALID_GRES\<close>.
\<close>

fun shared_tasks_on_sock ::
  "conf \<Rightarrow> nat \<Rightarrow> sock_gres \<Rightarrow> gres_node_state \<Rightarrow> bool \<Rightarrow> bool \<Rightarrow> bool \<Rightarrow> u32 list \<Rightarrow> nat \<Rightarrow>
   status \<times> gres_job_state \<Rightarrow> status \<times> gres_job_state" where
  "shared_tasks_on_sock cf node_inx sg ns use_busy_dev enforce_bind no_task_sharing used_sock 0
     (rc, js) = (rc, js)"
| "shared_tasks_on_sock cf node_inx sg ns use_busy_dev enforce_bind no_task_sharing used_sock (Suc i)
     (rc, js) =
     (let st = pick_shared_gres cf sg ns node_inx use_busy_dev True no_task_sharing enforce_bind
                 used_sock (js, gres_per_task js)
      in if snd st \<noteq> 0 then (ESLURM_INVALID_GRES, fst st)
         else shared_tasks_on_sock cf node_inx sg ns use_busy_dev enforce_bind no_task_sharing
                used_sock i (rc, fst st))"

fun shared_tasks_socks ::
  "conf \<Rightarrow> nat \<Rightarrow> sock_gres \<Rightarrow> gres_node_state \<Rightarrow> bool \<Rightarrow> bool \<Rightarrow> bool \<Rightarrow> u32 list \<Rightarrow> nat list \<Rightarrow>
   status \<times> gres_job_state \<Rightarrow> status \<times> gres_job_state" where
  "shared_tasks_socks cf node_inx sg ns use_busy_dev enforce_bind no_task_sharing tps [] st = st"
| "shared_tasks_socks cf node_inx sg ns use_busy_dev enforce_bind no_task_sharing tps (s # ss) st =
     shared_tasks_socks cf node_inx sg ns use_busy_dev enforce_bind no_task_sharing tps ss
       (shared_tasks_on_sock cf node_inx sg ns use_busy_dev enforce_bind no_task_sharing
          ((replicate (sock_cnt sg) 0)[s := 1]) (unat (tps ! s)) st)"

text \<open>\<open>_set_shared_task_bits\<close>.\<close>

definition set_shared_task_bits ::
  "conf \<Rightarrow> nat \<Rightarrow> sock_gres \<Rightarrow> gres_node_state \<Rightarrow> bool \<Rightarrow> bool \<Rightarrow> u32 list option \<Rightarrow>
   gres_job_state \<Rightarrow> status \<times> gres_job_state" where
  "set_shared_task_bits cf node_inx sg ns enforce_bind no_task_sharing tasks_per_socket js =
     (case tasks_per_socket of
        None \<Rightarrow> (SLURM_ERROR, js)
      | Some tps \<Rightarrow>
          let use_busy_dev = gres_use_busy_dev cf (gres_state_node sg) ns in
          if \<not> MULTIPLE_SHARING_GRES_PJ cf
          then (let gres_needed = gres_per_task js *
                      ucast (get_task_cnt_node tasks_per_socket (sock_cnt sg));
                    st = pick_shared_gres cf sg ns node_inx use_busy_dev True False enforce_bind
                           tps (js, gres_needed)
                in (if snd st \<noteq> 0 then ESLURM_INVALID_GRES else SLURM_SUCCESS, fst st))
          else shared_tasks_socks cf node_inx sg ns use_busy_dev enforce_bind no_task_sharing tps
                 [0..<sock_cnt sg] (SLURM_SUCCESS, js))"

section \<open>Selection: whole GRES\<close>

type_synonym s32 = "32 word"

text \<open>
  \<open>_update_and_sort_by_links\<close>: the link counts of the GRES just selected are added to
  the running sums, and the index array is sorted by them with \<open>_compare_gres_by_links\<close>.
  The sums are C \<open>int\<close>s; they are far from the limits of the type and are integers here.
\<close>

definition add_links :: "gres_node_state \<Rightarrow> nat \<Rightarrow> nat \<Rightarrow> int list \<Rightarrow> int list" where
  "add_links ns gres_inx gres_cnt lc =
     fold (\<lambda>l lc. if l = gres_inx \<or> bit_test (the (gres_bit_alloc ns)) l then lc
                   else lc[l := lc ! l + links_cnt ns ! gres_inx ! l])
       [0..<gres_cnt] lc"

definition compare_gres_by_links :: "int list \<Rightarrow> nat \<Rightarrow> nat \<Rightarrow> int" where
  "compare_gres_by_links lc x y = lc ! x - lc ! y"

definition update_and_sort_by_links ::
  "gres_node_state \<Rightarrow> nat \<Rightarrow> nat \<Rightarrow> nat list \<times> int list \<Rightarrow> nat list \<times> int list" where
  "update_and_sort_by_links ns gres_inx gres_cnt st =
     (let lc = add_links ns gres_inx gres_cnt (snd st)
      in (qsort (compare_gres_by_links lc) (fst st), lc))"

text \<open>Lines 635 to 637: GRES \<open>g\<close> is selected.\<close>

definition select_bit :: "gres_job_state \<Rightarrow> nat \<Rightarrow> nat \<Rightarrow> gres_job_state" where
  "select_bit js node_inx g =
     (let js = set_sel_bits js node_inx (Some (bit_set (sel_bits js node_inx) g))
      in set_sel_cnt js node_inx (sel_cnt js node_inx + 1))"

text \<open>
  The loop of \<open>_pick_gres_topo\<close>. The state is the job state, \<open>gres_still_needed\<close> and the
  two scratch arrays, which are \<open>NULL\<close> when links are not in use. After a selection with
  links the loop sets \<open>i = 0\<close>, and the increment of the \<open>for\<close> makes the next turn look at
  position 1.
\<close>

function pick_gres_loop ::
  "gres_node_state \<Rightarrow> nat \<Rightarrow> bitstr \<Rightarrow> nat \<Rightarrow> nat \<Rightarrow>
   gres_job_state \<times> u64 \<times> nat list option \<times> int list option \<Rightarrow>
   gres_job_state \<times> u64 \<times> nat list option \<times> int list option" where
  "pick_gres_loop ns node_inx sock_bits gres_cnt i (js, still, sorted_gres, lc) =
     (if i < gres_cnt \<and> still \<noteq> 0 then
        (let g = (case sorted_gres of Some sgs \<Rightarrow> sgs ! i | None \<Rightarrow> i) in
         if \<not> bit_test sock_bits g
         then pick_gres_loop ns node_inx sock_bits gres_cnt (Suc i) (js, still, sorted_gres, lc)
         else if bit_test (sel_bits js node_inx) g \<or> bit_test (the (gres_bit_alloc ns)) g
         then pick_gres_loop ns node_inx sock_bits gres_cnt (Suc i) (js, still, sorted_gres, lc)
         else if lc \<noteq> None \<and> sorted_gres \<noteq> None
         then pick_gres_loop ns node_inx sock_bits gres_cnt 1
                (select_bit js node_inx g, still - 1,
                 Some (fst (update_and_sort_by_links ns g gres_cnt (the sorted_gres, the lc))),
                 Some (snd (update_and_sort_by_links ns g gres_cnt (the sorted_gres, the lc))))
         else pick_gres_loop ns node_inx sock_bits gres_cnt (Suc i)
                (select_bit js node_inx g, still - 1, sorted_gres, lc))
      else (js, still, sorted_gres, lc))"
  by pat_completeness auto
termination
  by (relation "measures [\<lambda>(ns, n, sb, gc, i, js, still, sg, lc). unat still,
                          \<lambda>(ns, n, sb, gc, i, js, still, sg, lc). gc - i]")
     (auto simp: unat_minus_one unat_gt_0)

text \<open>
  \<open>_pick_gres_topo\<close>. The parameter \<open>gres_needed\<close> is an \<open>int\<close>; the count of GRES selected
  comes back as an unsigned 64-bit value, together with the state.
\<close>

definition pick_gres_topo ::
  "sock_gres \<Rightarrow> gres_node_state \<Rightarrow> s32 \<Rightarrow> nat \<Rightarrow> int \<Rightarrow>
   gres_job_state \<times> nat list option \<times> int list option \<Rightarrow>
   u64 \<times> gres_job_state \<times> nat list option \<times> int list option" where
  "pick_gres_topo sg ns gres_needed node_inx socket_index st =
     (case sock_bits_of sg socket_index of
        None \<Rightarrow> (0, st)
      | Some sock_bits \<Rightarrow>
          (case pick_gres_loop ns node_inx sock_bits (bit_size (sel_bits (fst st) node_inx)) 0
                  (fst st, scast gres_needed, fst (snd st), snd (snd st)) of
             (js, still, sorted_gres, lc) \<Rightarrow> (scast gres_needed - still, js, sorted_gres, lc)))"

text \<open>
  The job's multi-core options \<open>gres_mc_data_t\<close>, declared outside the snapshot: the two
  fields the pickers read.
\<close>

record gres_mc_data =
  mc_cpus_per_task :: u16
  mc_sockets_per_node :: u16

text \<open>
  The scratch arrays of a picker: with link counts for every GRES of the node
  (\<open>link_len == gres_cnt\<close>) the sums start at 0 and the index array is the identity.
\<close>

definition init_links :: "gres_node_state \<Rightarrow> nat \<Rightarrow> nat list option \<times> int list option" where
  "init_links ns gres_cnt =
     (if link_len ns = int gres_cnt
      then (Some [0..<gres_cnt], Some (replicate gres_cnt 0))
      else (None, None))"

text \<open>
  A socket loop of \<open>_set_node_bits\<close>: over the sockets flagged in \<open>used_sock\<close> or over the
  others, asking for one GRES per socket (\<open>one = True\<close>) or for all that is still needed.
  \<open>gres_needed\<close> is a \<open>uint32_t\<close> here.
\<close>

fun node_pass ::
  "sock_gres \<Rightarrow> gres_node_state \<Rightarrow> nat \<Rightarrow> u32 list \<Rightarrow> bool \<Rightarrow> bool \<Rightarrow> nat list \<Rightarrow>
   u32 \<times> gres_job_state \<times> nat list option \<times> int list option \<Rightarrow>
   u32 \<times> gres_job_state \<times> nat list option \<times> int list option" where
  "node_pass sg ns node_inx used_sock flagged one [] st = st"
| "node_pass sg ns node_inx used_sock flagged one (s # ss) st =
     (if fst st = 0 then st
      else if (used_sock ! s \<noteq> 0) \<noteq> flagged
      then node_pass sg ns node_inx used_sock flagged one ss st
      else (case pick_gres_topo sg ns (if one then 1 else fst st) node_inx (int s) (snd st) of
              (k, pst) \<Rightarrow> node_pass sg ns node_inx used_sock flagged one ss (fst st - ucast k, pst)))"

definition node_any ::
  "sock_gres \<Rightarrow> gres_node_state \<Rightarrow> nat \<Rightarrow> bool \<Rightarrow>
   u32 \<times> gres_job_state \<times> nat list option \<times> int list option \<Rightarrow>
   u32 \<times> gres_job_state \<times> nat list option \<times> int list option" where
  "node_any sg ns node_inx one st =
     (if fst st \<noteq> 0
      then (case pick_gres_topo sg ns (if one then 1 else fst st) node_inx ANY_SOCK_TEST (snd st) of
              (k, pst) \<Rightarrow> (fst st - ucast k, pst))
      else st)"

text \<open>\<open>_set_node_bits\<close>.\<close>

definition set_node_bits ::
  "nat \<Rightarrow> sock_gres \<Rightarrow> gres_node_state \<Rightarrow> u32 list \<Rightarrow> gres_job_state \<Rightarrow> gres_job_state" where
  "set_node_bits node_inx sg ns used_sock js =
     (let gres_cnt = bit_size (sel_bits js node_inx);
          gres_needed = (ucast (gres_per_node js) :: u32);
          st = (gres_needed, js, init_links ns gres_cnt);
          st = node_pass sg ns node_inx used_sock True True [0..<sock_cnt sg] st;
          st = node_any sg ns node_inx True st;
          st = node_pass sg ns node_inx used_sock True False [0..<sock_cnt sg] st;
          st = node_any sg ns node_inx False st;
          st = node_pass sg ns node_inx used_sock False False [0..<sock_cnt sg] st
      in fst (snd st))"

text \<open>
  \<open>_set_sock_bits\<close>, lines 689 to 705: too few sockets in the allocation; sockets without
  cores are elected while they have enough free GRES.
\<close>

definition free_gres_on_sock :: "sock_gres \<Rightarrow> gres_node_state \<Rightarrow> nat \<Rightarrow> u32" where
  "free_gres_on_sock sg ns s =
     of_int (int (bit_set_count (the (the (bits_by_sock sg) ! s))) -
             int (bit_overlap (the (the (bits_by_sock sg) ! s)) (the (gres_bit_alloc ns))))"

fun elect_socks ::
  "sock_gres \<Rightarrow> gres_node_state \<Rightarrow> gres_job_state \<Rightarrow> u16 \<Rightarrow> nat list \<Rightarrow> u32 list \<times> u32 \<Rightarrow>
   u32 list \<times> u32" where
  "elect_socks sg ns js sockets_per_node [] st = st"
| "elect_socks sg ns js sockets_per_node (s # ss) (used_sock, used_sock_cnt) =
     (if used_sock ! s \<noteq> 0 \<or> the (bits_by_sock sg) ! s = None
      then elect_socks sg ns js sockets_per_node ss (used_sock, used_sock_cnt)
      else
        let free = free_gres_on_sock sg ns s in
        if free = 0 \<or> ucast free < gres_per_socket js
        then elect_socks sg ns js sockets_per_node ss (used_sock[s := 0], used_sock_cnt)
        else if used_sock_cnt + 1 = ucast sockets_per_node
        then (used_sock[s := free], used_sock_cnt + 1)
        else elect_socks sg ns js sockets_per_node ss (used_sock[s := free], used_sock_cnt + 1))"

text \<open>
  Lines 711 to 723: too many sockets; the sockets in use get their count of free GRES,
  and the ones without any leave the count of used sockets.
\<close>

fun count_free_socks ::
  "sock_gres \<Rightarrow> gres_node_state \<Rightarrow> nat list \<Rightarrow> u32 list \<times> u32 \<Rightarrow> u32 list \<times> u32" where
  "count_free_socks sg ns [] st = st"
| "count_free_socks sg ns (s # ss) (used_sock, used_sock_cnt) =
     (if used_sock ! s = 0 \<or> the (bits_by_sock sg) ! s = None
      then count_free_socks sg ns ss (used_sock, used_sock_cnt)
      else
        let free = free_gres_on_sock sg ns s in
        count_free_socks sg ns ss
          (used_sock[s := free], if free = 0 then used_sock_cnt - 1 else used_sock_cnt))"

text \<open>
  Lines 726 to 734: the socket in use with the fewest free GRES, searched from the last
  socket down; \<open>None\<close> stands for \<open>low_sock_inx == -1\<close>.
\<close>

fun low_sock :: "u32 list \<Rightarrow> nat list \<Rightarrow> nat option \<Rightarrow> nat option" where
  "low_sock used_sock [] low = low"
| "low_sock used_sock (s # ss) low =
     (if used_sock ! s = 0 then low_sock used_sock ss low
      else if low = None \<or> used_sock ! s < used_sock ! the low
      then low_sock used_sock ss (Some s)
      else low_sock used_sock ss low)"

text \<open>The count of entries of \<open>used_sock\<close> that are in use, among the first \<open>n\<close>.\<close>

definition socks_in_use :: "u32 list \<Rightarrow> nat \<Rightarrow> nat" where
  "socks_in_use used_sock n = length (filter (\<lambda>s. used_sock ! s \<noteq> 0) [0..<n])"

lemma low_sock_in_use:
  "low_sock used_sock ss low = Some l \<Longrightarrow> set ss \<subseteq> {0..<n} \<Longrightarrow> n \<le> length used_sock \<Longrightarrow>
   (\<forall>k. low = Some k \<longrightarrow> k < n \<and> used_sock ! k \<noteq> 0) \<Longrightarrow> l < n \<and> used_sock ! l \<noteq> 0"
  by (induction ss arbitrary: low) (auto split: if_splits)

lemma socks_in_use_drop:
  assumes "l < n" and "n \<le> length used_sock" and "used_sock ! l \<noteq> 0"
  shows "socks_in_use (used_sock[l := 0]) n < socks_in_use used_sock n"
proof -
  let ?P = "\<lambda>s. used_sock ! s \<noteq> 0" and ?Q = "\<lambda>s. used_sock[l := 0] ! s \<noteq> 0"
  have sub: "{s \<in> set [0..<n]. ?Q s} \<subset> {s \<in> set [0..<n]. ?P s}"
    using assms by (auto simp: nth_list_update)
  have "card {s \<in> set [0..<n]. ?Q s} < card {s \<in> set [0..<n]. ?P s}"
    by (rule psubset_card_mono [OF _ sub]) simp
  then show ?thesis
    by (simp add: socks_in_use_def distinct_length_filter Int_def conj_commute)
qed

text \<open>
  Lines 725 to 739: while fewer sockets are counted in use than were requested, the
  socket with the fewest free GRES is dropped.
\<close>

function exclude_low_socks :: "u16 \<Rightarrow> nat \<Rightarrow> u32 list \<times> u32 \<Rightarrow> u32 list \<times> u32" where
  "exclude_low_socks sockets_per_node n (used_sock, used_sock_cnt) =
     (if ucast sockets_per_node > used_sock_cnt \<and> n \<le> length used_sock
      then (case low_sock used_sock (rev [0..<n]) None of
              None \<Rightarrow> (used_sock, used_sock_cnt)
            | Some l \<Rightarrow>
                exclude_low_socks sockets_per_node n (used_sock[l := 0], used_sock_cnt - 1))
      else (used_sock, used_sock_cnt))"
  by pat_completeness auto
termination
proof (relation "measure (\<lambda>(spn, n, used_sock, c). socks_in_use used_sock n)")
  show "wf (measure (\<lambda>(spn, n, used_sock, c). socks_in_use used_sock n))" by simp
next
  fix sockets_per_node :: u16 and n used_sock and used_sock_cnt :: u32 and l
  assume "ucast sockets_per_node > used_sock_cnt \<and> n \<le> length used_sock"
    and low: "low_sock used_sock (rev [0..<n]) None = Some l"
  then have n: "n \<le> length used_sock" by simp
  from low_sock_in_use [OF low _ n] have "l < n \<and> used_sock ! l \<noteq> 0" by simp
  with n socks_in_use_drop [of l n used_sock]
  show "((sockets_per_node, n, used_sock[l := 0], used_sock_cnt - 1),
         (sockets_per_node, n, used_sock, used_sock_cnt))
        \<in> measure (\<lambda>(spn, n, used_sock, c). socks_in_use used_sock n)"
    by simp
qed

text \<open>
  Lines 677 to 741: the private copy of \<open>used_sock\<close>, reshaped when the count of sockets in
  the allocation differs from the count the job asked for.
\<close>

definition reshape_used_sock ::
  "sock_gres \<Rightarrow> gres_node_state \<Rightarrow> gres_job_state \<Rightarrow> gres_mc_data option \<Rightarrow> u32 list \<Rightarrow> u32 \<Rightarrow>
   u32 list" where
  "reshape_used_sock sg ns js tres_mc_ptr used_cores_on_sock used_sock_cnt =
     (case tres_mc_ptr of
        None \<Rightarrow> used_cores_on_sock
      | Some mc \<Rightarrow>
          if mc_sockets_per_node mc \<noteq> 0 \<and> ucast (mc_sockets_per_node mc) \<noteq> used_sock_cnt \<and>
             gres_bit_alloc ns \<noteq> None \<and> bits_by_sock sg \<noteq> None
          then (let used_sock = take (sock_cnt sg) used_cores_on_sock in
                if ucast (mc_sockets_per_node mc) > used_sock_cnt
                then fst (elect_socks sg ns js (mc_sockets_per_node mc) [0..<sock_cnt sg]
                            (used_sock, used_sock_cnt))
                else fst (exclude_low_socks (mc_sockets_per_node mc) (sock_cnt sg)
                            (count_free_socks sg ns [0..<sock_cnt sg] (used_sock, used_sock_cnt))))
          else used_cores_on_sock)"

text \<open>Lines 755 to 767: the sockets in use get \<open>gres_per_socket\<close> GRES each.\<close>

fun sock_pass ::
  "sock_gres \<Rightarrow> gres_node_state \<Rightarrow> nat \<Rightarrow> u32 list \<Rightarrow> nat list \<Rightarrow>
   gres_job_state \<times> nat list option \<times> int list option \<Rightarrow>
   gres_job_state \<times> nat list option \<times> int list option" where
  "sock_pass sg ns node_inx used_sock [] st = st"
| "sock_pass sg ns node_inx used_sock (s # ss) st =
     (if used_sock ! s = 0 then sock_pass sg ns node_inx used_sock ss st
      else
        (case pick_gres_topo sg ns (ucast (gres_per_socket (fst st))) node_inx (int s) st of
           (k, st1) \<Rightarrow>
             let gres_needed = gres_per_socket (fst st) - k in
             if gres_needed \<noteq> 0
             then sock_pass sg ns node_inx used_sock ss
                    (snd (pick_gres_topo sg ns (ucast gres_needed) node_inx ANY_SOCK_TEST st1))
             else sock_pass sg ns node_inx used_sock ss st1))"

text \<open>\<open>_set_sock_bits\<close>.\<close>

definition set_sock_bits ::
  "nat \<Rightarrow> sock_gres \<Rightarrow> gres_node_state \<Rightarrow> gres_mc_data option \<Rightarrow> u32 list \<Rightarrow> u32 \<Rightarrow>
   gres_job_state \<Rightarrow> gres_job_state" where
  "set_sock_bits node_inx sg ns tres_mc_ptr used_cores_on_sock used_sock_cnt js =
     (let gres_cnt = bit_size (sel_bits js node_inx);
          used_sock = reshape_used_sock sg ns js tres_mc_ptr used_cores_on_sock used_sock_cnt
      in fst (sock_pass sg ns node_inx used_sock [0..<sock_cnt sg] (js, init_links ns gres_cnt)))"

text \<open>\<open>_set_task_bits\<close>, lines 1137 to 1146: the sockets with tasks.\<close>

fun task_pass_active ::
  "sock_gres \<Rightarrow> gres_node_state \<Rightarrow> nat \<Rightarrow> u32 list \<Rightarrow> nat list \<Rightarrow>
   u64 \<times> gres_job_state \<times> nat list option \<times> int list option \<Rightarrow>
   u64 \<times> gres_job_state \<times> nat list option \<times> int list option" where
  "task_pass_active sg ns node_inx tps [] st = st"
| "task_pass_active sg ns node_inx tps (s # ss) st =
     (if tps ! s = 0 then task_pass_active sg ns node_inx tps ss st
      else
        let sock_gres_needed = min (fst st) (ucast (tps ! s) * gres_per_task (fst (snd st))) in
        (case pick_gres_topo sg ns (ucast sock_gres_needed) node_inx (int s) (snd st) of
           (k, pst) \<Rightarrow> task_pass_active sg ns node_inx tps ss (fst st - k, pst)))"

text \<open>Lines 1155 to 1158: every socket, while GRES are still needed.\<close>

fun task_pass_all ::
  "sock_gres \<Rightarrow> gres_node_state \<Rightarrow> nat \<Rightarrow> nat list \<Rightarrow>
   u64 \<times> gres_job_state \<times> nat list option \<times> int list option \<Rightarrow>
   u64 \<times> gres_job_state \<times> nat list option \<times> int list option" where
  "task_pass_all sg ns node_inx [] st = st"
| "task_pass_all sg ns node_inx (s # ss) st =
     (if fst st = 0 then st
      else (case pick_gres_topo sg ns (ucast (fst st)) node_inx (int s) (snd st) of
              (k, pst) \<Rightarrow> task_pass_all sg ns node_inx ss (fst st - k, pst)))"

text \<open>\<open>_set_task_bits\<close>.\<close>

definition set_task_bits ::
  "nat \<Rightarrow> sock_gres \<Rightarrow> gres_node_state \<Rightarrow> u32 list option \<Rightarrow> gres_job_state \<Rightarrow> gres_job_state" where
  "set_task_bits node_inx sg ns tasks_per_socket js =
     (case tasks_per_socket of
        None \<Rightarrow> js
      | Some tps \<Rightarrow>
          let gres_cnt = bit_size (sel_bits js node_inx);
              gres_needed = ucast (get_task_cnt_node tasks_per_socket (sock_cnt sg)) *
                            gres_per_task js;
              st = (gres_needed, js, init_links ns gres_cnt);
              st = task_pass_active sg ns node_inx tps [0..<sock_cnt sg] st;
              st = (if fst st \<noteq> 0
                    then (case pick_gres_topo sg ns (ucast (fst st)) node_inx ANY_SOCK_TEST
                                 (snd st) of
                            (k, pst) \<Rightarrow> (fst st - k, pst))
                    else st);
              st = task_pass_all sg ns node_inx [0..<sock_cnt sg] st
          in fst (snd st))"

text \<open>
  \<open>_set_job_bits1\<close>, lines 809 to 823: \<open>max_gres\<close>, an \<open>int\<close>. The subtraction is unsigned
  64-bit and the result is cut to 32 bits; the \<open>MIN\<close> with the unsigned quotient compares
  unsigned.
\<close>

definition job_cpus_per_gres :: "gres_job_state \<Rightarrow> gres_mc_data option \<Rightarrow> u16" where
  "job_cpus_per_gres js tres_mc_ptr =
     (if cpus_per_gres js \<noteq> 0 then cpus_per_gres js
      else if ntasks_per_gres js \<noteq> 0 \<and> ntasks_per_gres js \<noteq> NO_VAL16
      then ntasks_per_gres js * mc_cpus_per_task (the tres_mc_ptr)
      else 0)"

definition job_max_gres ::
  "gres_job_state \<Rightarrow> gres_mc_data option \<Rightarrow> s32 \<Rightarrow> u16 \<Rightarrow> u32 \<Rightarrow> s32" where
  "job_max_gres js tres_mc_ptr rem_nodes cpus_per_core_n total_cores =
     (let max_gres = (ucast (gres_per_job js - total_gres js - scast (rem_nodes - 1)) :: s32);
          cpg = job_cpus_per_gres js tres_mc_ptr
      in if cpg \<noteq> 0
         then (let lim = (total_cores * ucast cpus_per_core_n) div ucast cpg
               in if max_gres < lim then max_gres else lim)
         else max_gres)"

text \<open>Lines 824 to 837: how many GRES to pick before pruning.\<close>

definition job_pick_gres :: "gres_node_state \<Rightarrow> nat \<Rightarrow> s32 \<Rightarrow> s32" where
  "job_pick_gres ns gres_cnt max_gres =
     (if 1 <s max_gres \<and> link_len ns = int gres_cnt then ucast NO_VAL16
      else if max_gres <s 1 then 1 else max_gres)"

text \<open>Lines 844 to 850: the sockets with allocated cores.\<close>

fun job_pass_used ::
  "sock_gres \<Rightarrow> gres_node_state \<Rightarrow> nat \<Rightarrow> u32 list \<Rightarrow> s32 \<Rightarrow> nat list \<Rightarrow>
   s32 \<times> gres_job_state \<Rightarrow> s32 \<times> gres_job_state" where
  "job_pass_used sg ns node_inx cores_on_sock pick_gres [] st = st"
| "job_pass_used sg ns node_inx cores_on_sock pick_gres (s # ss) st =
     (if \<not> fst st <s pick_gres then st
      else if cores_on_sock ! s = 0
      then job_pass_used sg ns node_inx cores_on_sock pick_gres ss st
      else (case pick_gres_topo sg ns (pick_gres - fst st) node_inx (int s) (snd st, None, None) of
              (k, js, x) \<Rightarrow>
                job_pass_used sg ns node_inx cores_on_sock pick_gres ss (fst st + ucast k, js)))"

text \<open>Lines 856 to 863: the sockets without cores, when nothing was found so far.\<close>

fun job_pass_unused ::
  "sock_gres \<Rightarrow> gres_node_state \<Rightarrow> nat \<Rightarrow> u32 list \<Rightarrow> nat list \<Rightarrow>
   s32 \<times> gres_job_state \<Rightarrow> s32 \<times> gres_job_state" where
  "job_pass_unused sg ns node_inx cores_on_sock [] st = st"
| "job_pass_unused sg ns node_inx cores_on_sock (s # ss) st =
     (if fst st \<noteq> 0 then st
      else if cores_on_sock ! s \<noteq> 0
      then job_pass_unused sg ns node_inx cores_on_sock ss st
      else (case pick_gres_topo sg ns 1 node_inx (int s) (snd st, None, None) of
              (k, js, x) \<Rightarrow>
                job_pass_unused sg ns node_inx cores_on_sock ss (fst st + ucast k, js)))"

text \<open>
  Lines 870 to 884: the best linked pair among the selected GRES, looked for over the
  pairs \<open>s < g\<close>; the state is \<open>best_link_cnt\<close> and \<open>best_inx\<close>.
\<close>

definition best_step :: "gres_node_state \<Rightarrow> bitstr \<Rightarrow> nat \<times> nat \<Rightarrow> int \<times> int \<Rightarrow> int \<times> int" where
  "best_step ns sel p st =
     (if \<not> bit_test sel (fst p) \<or> \<not> bit_test sel (snd p) then st
      else if links_cnt ns ! fst p ! snd p \<le> fst st then st
      else (links_cnt ns ! fst p ! snd p, int (fst p)))"

definition best_link :: "gres_node_state \<Rightarrow> bitstr \<Rightarrow> nat \<Rightarrow> int \<times> int" where
  "best_link ns sel gres_cnt =
     fold (best_step ns sel)
       (concat (map (\<lambda>s. map (\<lambda>g. (s, g)) [Suc s..<gres_cnt]) [0..<gres_cnt]))
       (-1, -1)"

text \<open>
  Lines 886 to 899: the selected GRES with the fewest links to \<open>best_inx\<close>; the state is
  \<open>worst_inx\<close> and \<open>worst_link_cnt\<close>.
\<close>

definition worst_step :: "gres_node_state \<Rightarrow> bitstr \<Rightarrow> int \<Rightarrow> nat \<Rightarrow> int \<times> int \<Rightarrow> int \<times> int" where
  "worst_step ns sel best_inx g st =
     (if int g = best_inx then st
      else if \<not> bit_test sel g then st
      else if links_cnt ns ! nat best_inx ! g \<ge> snd st then st
      else (int g, links_cnt ns ! nat best_inx ! g))"

definition worst_link :: "gres_node_state \<Rightarrow> bitstr \<Rightarrow> nat \<Rightarrow> int \<Rightarrow> int \<times> int" where
  "worst_link ns sel gres_cnt best_inx =
     fold (worst_step ns sel best_inx) [0..<gres_cnt] (-1, uint NO_VAL16)"

text \<open>Lines 904 to 906: a selected GRES is given up.\<close>

definition unselect_bit :: "gres_job_state \<Rightarrow> nat \<Rightarrow> nat \<Rightarrow> gres_job_state" where
  "unselect_bit js node_inx g =
     (let js = set_sel_bits js node_inx (Some (bit_clear (sel_bits js node_inx) g))
      in set_sel_cnt js node_inx (sel_cnt js node_inx - 1))"

lemma sint_pred_s32: "(m :: s32) <s a \<Longrightarrow> sint (a - 1) = sint a - 1"
proof -
  assume "m <s a"
  then have "sint m < sint a" by (simp add: word_sless_alt)
  moreover have "- (2 ^ 31) \<le> sint m" using sint_ge [of m] by simp
  moreover have "sint a < 2 ^ 31" using sint_lt [of a] by simp
  ultimately have "- (2 ^ 31) \<le> sint a - 1" "sint a - 1 < 2 ^ 31" by simp_all
  then show ?thesis
    by (simp add: sint_word_ariths signed_take_bit_int_eq_self)
qed

text \<open>Lines 885 to 908: the pruning loop.\<close>

function prune_by_links ::
  "gres_node_state \<Rightarrow> nat \<Rightarrow> nat \<Rightarrow> s32 \<Rightarrow> int \<Rightarrow> int \<Rightarrow> gres_job_state \<times> s32 \<Rightarrow>
   gres_job_state \<times> s32" where
  "prune_by_links ns node_inx gres_cnt max_gres best_link_cnt best_inx (js, alloc_gres_cnt) =
     (if max_gres <s alloc_gres_cnt \<and> best_link_cnt \<noteq> -1
      then (let worst_inx = fst (worst_link ns (sel_bits js node_inx) gres_cnt best_inx) in
            if worst_inx = -1 then (js, alloc_gres_cnt)
            else prune_by_links ns node_inx gres_cnt max_gres best_link_cnt best_inx
                   (unselect_bit js node_inx (nat worst_inx), alloc_gres_cnt - 1))
      else (js, alloc_gres_cnt))"
  by pat_completeness auto
termination
  by (relation "measure (\<lambda>(ns, n, gc, max_gres, bl, bi, js, alloc). nat (sint alloc - sint max_gres))")
     (auto simp: sint_pred_s32 word_sless_alt)

text \<open>Lines 844 to 863: the three selection steps; the state is \<open>alloc_gres_cnt\<close> and the job state.\<close>

definition job_bits1_select ::
  "sock_gres \<Rightarrow> gres_node_state \<Rightarrow> nat \<Rightarrow> u32 list \<Rightarrow> s32 \<Rightarrow> gres_job_state \<Rightarrow>
   s32 \<times> gres_job_state" where
  "job_bits1_select sg ns node_inx cores_on_sock pick_gres js =
     (let st = job_pass_used sg ns node_inx cores_on_sock pick_gres [0..<sock_cnt sg] (0, js);
          st = (if fst st <s pick_gres
                then (case pick_gres_topo sg ns (pick_gres - fst st) node_inx ANY_SOCK_TEST
                             (snd st, None, None) of
                        (k, js, x) \<Rightarrow> (fst st + ucast k, js))
                else st)
      in if fst st = 0
         then job_pass_unused sg ns node_inx cores_on_sock [0..<sock_cnt sg] st
         else st)"

text \<open>Lines 869 to 909: with more selected than \<open>max_gres\<close>, the least linked are given up.\<close>

definition job_bits1_prune ::
  "gres_node_state \<Rightarrow> nat \<Rightarrow> nat \<Rightarrow> s32 \<Rightarrow> s32 \<times> gres_job_state \<Rightarrow> gres_job_state \<times> s32" where
  "job_bits1_prune ns node_inx gres_cnt max_gres st =
     (if max_gres <s fst st
      then (let best = best_link ns (sel_bits (snd st) node_inx) gres_cnt
            in prune_by_links ns node_inx gres_cnt max_gres (fst best) (snd best)
                 (snd st, fst st))
      else (snd st, fst st))"

text \<open>\<open>_set_job_bits1\<close>: the return value \<open>fini\<close> and the job state.\<close>

definition set_job_bits1 ::
  "nat \<Rightarrow> nat \<Rightarrow> s32 \<Rightarrow> sock_gres \<Rightarrow> gres_node_state \<Rightarrow> gres_mc_data option \<Rightarrow> u16 \<Rightarrow>
   u32 list \<Rightarrow> u32 \<Rightarrow> gres_job_state \<Rightarrow> int \<times> gres_job_state" where
  "set_job_bits1 node_inx job_node_inx rem_nodes sg ns tres_mc_ptr cpus_per_core_n
     cores_on_sock total_cores js =
     (let fini = (if gres_per_job js = total_gres js then 1 else 0 :: int);
          js = (if job_node_inx = 0 then js\<lparr>total_gres := 0\<rparr> else js);
          max_gres = job_max_gres js tres_mc_ptr rem_nodes cpus_per_core_n total_cores;
          gres_cnt = bit_size (sel_bits js node_inx);
          pick_gres = job_pick_gres ns gres_cnt max_gres;
          st = job_bits1_select sg ns node_inx cores_on_sock pick_gres js;
          st = job_bits1_prune ns node_inx gres_cnt max_gres st;
          js = (fst st)\<lparr>total_gres := total_gres (fst st) + scast (snd st)\<rparr>;
          fini = (if total_gres js \<ge> gres_per_job js then 1 else fini)
      in (fini, js))"

text \<open>
  \<open>_set_job_bits2\<close>, lines 966 to 981: the link sums start from the GRES already selected.
\<close>

definition seed_links :: "gres_node_state \<Rightarrow> bitstr \<Rightarrow> nat \<Rightarrow> nat list option \<times> int list option" where
  "seed_links ns sel gres_cnt =
     (let lc = fold (\<lambda>g lc. if \<not> bit_test sel g then lc else add_links ns g gres_cnt lc)
                 [0..<gres_cnt] (replicate gres_cnt 0)
      in (Some (qsort (compare_gres_by_links lc) [0..<gres_cnt]), Some lc))"

text \<open>Lines 988 to 994: every socket, while the job's count is not met.\<close>

fun job2_pass ::
  "sock_gres \<Rightarrow> gres_node_state \<Rightarrow> nat \<Rightarrow> nat list \<Rightarrow>
   gres_job_state \<times> nat list option \<times> int list option \<Rightarrow>
   gres_job_state \<times> nat list option \<times> int list option" where
  "job2_pass sg ns node_inx [] st = st"
| "job2_pass sg ns node_inx (s # ss) st =
     (if \<not> gres_per_job (fst st) > total_gres (fst st) then st
      else (case pick_gres_topo sg ns (ucast (gres_per_job (fst st) - total_gres (fst st)))
                   node_inx (int s) st of
              (k, js, x) \<Rightarrow>
                job2_pass sg ns node_inx ss (js\<lparr>total_gres := total_gres js + k\<rparr>, x)))"

text \<open>Lines 957 to 998: the scratch arrays, the sockets and the GRES bound to no socket.\<close>

definition job_bits2_scratch ::
  "gres_node_state \<Rightarrow> nat \<Rightarrow> gres_job_state \<Rightarrow> nat list option \<times> int list option" where
  "job_bits2_scratch ns node_inx js =
     (if gres_per_job js > total_gres js \<and> link_len ns = int (bit_size (sel_bits js node_inx))
      then seed_links ns (sel_bits js node_inx) (bit_size (sel_bits js node_inx))
      else (None, None))"

definition job_bits2_any ::
  "sock_gres \<Rightarrow> gres_node_state \<Rightarrow> nat \<Rightarrow> gres_job_state \<times> nat list option \<times> int list option \<Rightarrow>
   gres_job_state \<times> nat list option \<times> int list option" where
  "job_bits2_any sg ns node_inx st =
     (if gres_per_job (fst st) > total_gres (fst st)
      then (case pick_gres_topo sg ns (ucast (gres_per_job (fst st) - total_gres (fst st)))
                   node_inx ANY_SOCK_TEST st of
              (k, js, x) \<Rightarrow> (js\<lparr>total_gres := total_gres js + k\<rparr>, x))
      else st)"

text \<open>
  \<open>_set_job_bits2\<close>: the return value (\<open>fini\<close>, or \<open>SLURM_ERROR\<close>, which is -1) and the job
  state.
\<close>

definition set_job_bits2 ::
  "nat \<Rightarrow> sock_gres \<Rightarrow> gres_node_state \<Rightarrow> gres_job_state \<Rightarrow> int \<times> gres_job_state" where
  "set_job_bits2 node_inx sg ns js =
     (if gres_per_job js \<le> total_gres js then (1, js)
      else if gres_bit_select js = None \<or> the (gres_bit_select js) node_inx = None then (-1, js)
      else
        let st = job2_pass sg ns node_inx [0..<sock_cnt sg]
                   (js, job_bits2_scratch ns node_inx js);
            st = job_bits2_any sg ns node_inx st
        in (if gres_per_job (fst st) \<le> total_gres (fst st) then 1 else 0, fst st))"

section \<open>Selection: the orchestrator\<close>

text \<open>
  The collaborators of the orchestrator are outside the snapshot. The node table gives a
  node's threads per core and its socket count. The job's resource allocation has the
  node bitmap and the core bitmap; \<open>get_job_resources_cnt\<close> and \<open>get_job_resources_offset\<close>
  are its two lookups, taken as they answer for each node of the job. The job record has
  the allocation and the two flags \<open>GRES_ENFORCE_BIND\<close> and \<open>GRES_ONE_TASK_PER_SHARING\<close> of
  its \<open>bit_flags\<close>.
\<close>

record node_record =
  tpc :: u16
  tot_sockets :: u16

record job_resources =
  jr_node_bitmap :: "bitstr option"
  jr_core_bitmap :: bitstr
  get_job_resources_cnt :: "nat \<Rightarrow> (u16 \<times> u16) option"
  get_job_resources_offset :: "nat \<Rightarrow> int"

record job_record =
  job_resrcs :: "job_resources option"
  flag_enforce_bind :: bool
  flag_one_task_per_sharing :: bool

text \<open>
  The task layout builder \<open>_build_tasks_per_node_sock\<close> reads the job's allocation and
  options only, and its result is read-only for the selection. It is a parameter: the
  matrix \<open>tasks_layout\<close> it returns, one optional row per node index. What the theorems
  below say holds for every such matrix.
\<close>

record env =
  node_record_table :: "nat \<Rightarrow> node_record"
  tasks_layout :: "nat \<Rightarrow> u32 list option"

text \<open>
  \<open>select_and_set_args_t\<close>. The pointers \<open>job_fini\<close>, \<open>rc\<close> and \<open>tasks_per_node_socket\<close> refer to
  locals of the caller; their targets are held here.
\<close>

record sas_args =
  job_node_inx :: nat
  node_inx :: nat
  rem_node_cnt :: s32
  node_ptr :: node_record
  job_fini :: int
  a_rc :: status
  tasks_per_node_socket :: "(nat \<Rightarrow> u32 list option) option"
  used_cores_on_sock :: "u32 list option"
  used_core_cnt :: u32
  used_sock_cnt :: u32
  a_sock_cnt :: u16

text \<open>Lines 1416 to 1424 of \<open>_set_used_cnts\<close>: the allocated cores of each socket.\<close>

fun used_cnts_loop :: "bitstr \<Rightarrow> int \<Rightarrow> u16 \<Rightarrow> nat list \<Rightarrow> sas_args \<Rightarrow> sas_args" where
  "used_cnts_loop cores core_offset cores_per_socket_cnt [] args = args"
| "used_cnts_loop cores core_offset cores_per_socket_cnt (socket_inx # rest) args =
     (let begin = nat (core_offset + int socket_inx * uint cores_per_socket_cnt);
          core_cnt = bit_set_count_range cores begin (begin + unat cores_per_socket_cnt);
          uc = the (used_cores_on_sock args)
      in used_cnts_loop cores core_offset cores_per_socket_cnt rest
           (args\<lparr>used_cores_on_sock := Some (uc[socket_inx := uc ! socket_inx + of_nat core_cnt]),
                 used_core_cnt := used_core_cnt args + of_nat core_cnt,
                 used_sock_cnt := (if core_cnt \<noteq> 0 then used_sock_cnt args + 1
                                   else used_sock_cnt args)\<rparr>))"

text \<open>\<open>_set_used_cnts\<close>.\<close>

definition set_used_cnts :: "job_record \<Rightarrow> sas_args \<Rightarrow> status \<times> sas_args" where
  "set_used_cnts job_ptr args =
     (let job_res = the (job_resrcs job_ptr) in
      case get_job_resources_cnt job_res (job_node_inx args) of
        None \<Rightarrow> (SLURM_ERROR, args)
      | Some (n_sock, cores_per_socket_cnt) \<Rightarrow>
          let args = args\<lparr>a_sock_cnt := n_sock\<rparr>;
              core_offset = get_job_resources_offset job_res (job_node_inx args)
          in if core_offset < 0 then (SLURM_ERROR, args)
             else
               let args = args\<lparr>used_cores_on_sock := Some (replicate (unat n_sock) 0)\<rparr>;
                   args = used_cnts_loop (jr_core_bitmap job_res) core_offset cores_per_socket_cnt
                            [0..<unat n_sock] args
               in if used_sock_cnt args = 0 then (SLURM_ERROR, args)
                  else (SLURM_SUCCESS, args))"

text \<open>\<open>_get_job_cnt\<close>: the count for a node without topology under a per-job request.\<close>

definition get_job_cnt :: "gres_job_state \<Rightarrow> gres_node_state \<Rightarrow> s32 \<Rightarrow> u64" where
  "get_job_cnt js ns rem =
     (let avail_gres = gres_cnt_avail ns - gres_cnt_alloc ns;
          max_gres = gres_per_job js - total_gres js - scast (rem - 1)
      in min avail_gres max_gres)"

text \<open>\<open>_get_gres_node_cnt\<close>: the count of GRES on the node, an \<open>int\<close>.\<close>

definition get_gres_node_cnt :: "gres_node_state \<Rightarrow> nat" where
  "get_gres_node_cnt ns =
     (case gres_bit_alloc ns of
        Some b \<Rightarrow> bit_size b
      | None \<Rightarrow>
          (case topo_gres_bitmap ns of
             Some (Some b # rest) \<Rightarrow> bit_size b
           | _ \<Rightarrow> unat (ucast (sum_list (map (\<lambda>i. the (topo_gres_cnt_avail ns) ! i)
                                         [0..<topo_cnt ns])) :: s32)))"

text \<open>
  Lines 1484 to 1495 of \<open>_select_and_set_node\<close>: the counters of the job state are set up
  on first use, and \<open>total_gres\<close> starts again at the first node of the job.
\<close>

definition prepare_job_state :: "bitstr \<Rightarrow> nat \<Rightarrow> gres_job_state \<Rightarrow> gres_job_state" where
  "prepare_job_state nodes n js =
     (let js = (if total_node_cnt js = 0
                then js\<lparr>total_node_cnt := of_nat (bit_size nodes), total_gres := 0\<rparr> else js);
          js = (if gres_cnt_node_select js = None
                then js\<lparr>gres_cnt_node_select := Some (\<lambda>_. 0)\<rparr> else js)
      in if int n = bit_ffs nodes then js\<lparr>total_gres := 0\<rparr> else js)"

text \<open>Lines 1497 to 1520: a node without topology gets a count and no bitmap.\<close>

definition count_without_topo ::
  "gres_node_state \<Rightarrow> sas_args \<Rightarrow> gres_job_state \<Rightarrow> gres_job_state" where
  "count_without_topo ns args js =
     (let n = node_inx args;
          js = (if gres_per_node js \<noteq> 0 then set_sel_cnt js n (gres_per_node js)
                else if gres_per_socket js \<noteq> 0
                then set_sel_cnt js n (gres_per_socket js * ucast (used_sock_cnt args))
                else if gres_per_task js \<noteq> 0
                then set_sel_cnt js n
                       (gres_per_task js *
                        ucast (get_task_cnt_node (the (tasks_per_node_socket args) n)
                                 (unat (tot_sockets (node_ptr args)))))
                else if gres_per_job js \<noteq> 0
                then set_sel_cnt js n (get_job_cnt js ns (rem_node_cnt args))
                else js)
      in js\<lparr>total_gres := total_gres js + sel_cnt js n\<rparr>)"

text \<open>
  Lines 1523 to 1530: the selection bitmap of the node is a fresh one of the node's GRES
  count, and the node's count starts at 0.
\<close>

definition fresh_selection :: "gres_node_state \<Rightarrow> nat \<Rightarrow> gres_job_state \<Rightarrow> gres_job_state" where
  "fresh_selection ns n js =
     (let js = (if gres_bit_select js = None
                then js\<lparr>gres_bit_select := Some (\<lambda>_. None)\<rparr> else js);
          js = set_sel_bits js n (Some (bit_alloc (get_gres_node_cnt ns)))
      in set_sel_cnt js n 0)"

text \<open>
  Lines 1532 to 1572: the dispatch to the pickers. The result is the job state and the
  targets of \<open>rc\<close> and \<open>job_fini\<close> in the arguments.
\<close>

definition dispatch_pickers ::
  "conf \<Rightarrow> job_record \<Rightarrow> gres_mc_data option \<Rightarrow> sock_gres \<Rightarrow> gres_node_state \<Rightarrow> sas_args \<Rightarrow>
   gres_job_state \<Rightarrow> gres_job_state \<times> sas_args" where
  "dispatch_pickers cf job_ptr tres_mc_ptr sg ns args js =
     (let n = node_inx args in
      if gres_id_shared cf (config_flags (gres_state_job sg))
      then (let js = init_gres_per_bit_select js n in
            if gres_per_node js \<noteq> 0
            then (case set_shared_node_bits cf n sg ns (flag_enforce_bind job_ptr)
                         (the (used_cores_on_sock args)) js of
                    (r, js) \<Rightarrow> (js, args\<lparr>a_rc := r\<rparr>))
            else if gres_per_task js \<noteq> 0
            then (case set_shared_task_bits cf n sg ns (flag_enforce_bind job_ptr)
                         (flag_one_task_per_sharing job_ptr)
                         (the (tasks_per_node_socket args) n) js of
                    (r, js) \<Rightarrow> (js, args\<lparr>a_rc := r\<rparr>))
            else (js, args\<lparr>a_rc := ESLURM_INVALID_GRES\<rparr>))
      else if gres_per_node js \<noteq> 0
      then (set_node_bits n sg ns (the (used_cores_on_sock args)) js, args)
      else if gres_per_socket js \<noteq> 0
      then (set_sock_bits n sg ns tres_mc_ptr (the (used_cores_on_sock args))
              (used_sock_cnt args) js, args)
      else if gres_per_task js \<noteq> 0
      then (set_task_bits n sg ns (the (tasks_per_node_socket args) n) js, args)
      else if gres_per_job js \<noteq> 0
      then (case set_job_bits1 n (job_node_inx args) (rem_node_cnt args) sg ns tres_mc_ptr
                   (tpc (node_ptr args)) (the (used_cores_on_sock args)) (used_core_cnt args) js of
              (tmp, js) \<Rightarrow> (js, if job_fini args \<noteq> 0 then args\<lparr>job_fini := tmp\<rparr> else args))
      else (js, args))"

text \<open>
  \<open>_select_and_set_node\<close>, the callback of the list walk: its return value, the heap and
  the arguments. The job state of the request is read from the heap and written back.
\<close>

definition select_and_set_node ::
  "env \<Rightarrow> conf \<Rightarrow> job_record \<Rightarrow> gres_mc_data option \<Rightarrow> sock_gres \<Rightarrow> heap \<times> sas_args \<Rightarrow>
   int \<times> heap \<times> sas_args" where
  "select_and_set_node ev cf job_ptr tres_mc_ptr sg st =
     (case (gres_data (gres_state_job sg), gres_data (gres_state_node sg)) of
        (Some ja, Some na) \<Rightarrow>
          let h = fst st; args = snd st;
              js = job_heap h ja; ns = node_heap h na;
              nodes = the (jr_node_bitmap (the (job_resrcs job_ptr)));
              need_cnts = ((gres_per_node js \<noteq> 0 \<or> gres_per_socket js \<noteq> 0 \<or>
                            gres_per_job js \<noteq> 0) \<and> used_cores_on_sock args = None);
              cnts = (if need_cnts then set_used_cnts job_ptr args else (SLURM_SUCCESS, args))
          in if need_cnts \<and> fst cnts \<noteq> SLURM_SUCCESS
             then (-1, h, (snd cnts)\<lparr>a_rc := fst cnts\<rparr>)
             else
               let args = (if need_cnts then (snd cnts)\<lparr>a_rc := fst cnts\<rparr> else args);
                   args = (if gres_per_task js \<noteq> 0 \<and> tasks_per_node_socket args = None
                           then args\<lparr>tasks_per_node_socket := Some (tasks_layout ev)\<rparr>
                           else args);
                   js = prepare_job_state nodes (node_inx args) js
               in if topo_cnt ns = 0
                  then (0, h\<lparr>job_heap := (job_heap h)(ja := count_without_topo ns args js)\<rparr>, args)
                  else
                    (case dispatch_pickers cf job_ptr tres_mc_ptr sg ns args
                            (fresh_selection ns (node_inx args) js) of
                       (js, args) \<Rightarrow>
                         let js = (if job_fini args = -1
                                   then js\<lparr>total_gres := total_gres js + sel_cnt js (node_inx args)\<rparr>
                                   else js)
                         in (0, h\<lparr>job_heap := (job_heap h)(ja := js)\<rparr>, args))
      | _ \<Rightarrow> (0, st))"

text \<open>
  Modelled from the spec: \<open>list_for_each\<close> and \<open>next_node_bitmap\<close> are outside the snapshot.
  The walk calls the callback on the records in list order and stops at a negative
  return value; the nodes come in the order of the set bits of the job's node bitmap.
\<close>

fun for_each_sock_gres ::
  "env \<Rightarrow> conf \<Rightarrow> job_record \<Rightarrow> gres_mc_data option \<Rightarrow> sock_gres list \<Rightarrow> heap \<times> sas_args \<Rightarrow>
   heap \<times> sas_args" where
  "for_each_sock_gres ev cf job_ptr tres_mc_ptr [] st = st"
| "for_each_sock_gres ev cf job_ptr tres_mc_ptr (sg # rest) st =
     (case select_and_set_node ev cf job_ptr tres_mc_ptr sg st of
        (ret, st') \<Rightarrow>
          if ret < 0 then st' else for_each_sock_gres ev cf job_ptr tres_mc_ptr rest st')"

definition node_indices :: "bitstr \<Rightarrow> nat list" where
  "node_indices nodes = filter (\<lambda>i. bit_test nodes i) [0..<bit_size nodes]"

text \<open>
  The first loop of \<open>gres_select_filter_select_and_set\<close>, lines 1617 to 1641, over the
  nodes that are left. The state is the heap and the locals \<open>job_fini\<close>, \<open>rc\<close> and
  \<open>tasks_per_node_socket\<close>.
\<close>

fun node_loop ::
  "env \<Rightarrow> conf \<Rightarrow> job_record \<Rightarrow> gres_mc_data option \<Rightarrow> (nat \<Rightarrow> sock_gres list) \<Rightarrow>
   nat list \<Rightarrow> nat \<Rightarrow> s32 \<Rightarrow>
   heap \<times> int \<times> status \<times> (nat \<Rightarrow> u32 list option) option \<Rightarrow>
   heap \<times> int \<times> status \<times> (nat \<Rightarrow> u32 list option) option" where
  "node_loop ev cf job_ptr tres_mc_ptr sock_gres_list [] jni rem st = st"
| "node_loop ev cf job_ptr tres_mc_ptr sock_gres_list (i # rest) jni rem (h, fini, r, tasks) =
     (if r \<noteq> SLURM_SUCCESS then (h, fini, r, tasks)
      else
        let args = \<lparr>job_node_inx = jni, node_inx = i, rem_node_cnt = rem,
                    node_ptr = node_record_table ev i, job_fini = fini, a_rc = r,
                    tasks_per_node_socket = tasks, used_cores_on_sock = None,
                    used_core_cnt = 0, used_sock_cnt = 0, a_sock_cnt = 0\<rparr>
        in (case for_each_sock_gres ev cf job_ptr tres_mc_ptr (sock_gres_list jni) (h, args) of
              (h', args') \<Rightarrow>
                node_loop ev cf job_ptr tres_mc_ptr sock_gres_list rest (Suc jni) (rem - 1)
                  (h', job_fini args', a_rc args', tasks_per_node_socket args')))"

text \<open>
  Lines 1654 to 1665: the second pass over the records of one node. \<open>tmp\<close> is a \<open>bool\<close>, so
  every return value of \<open>_set_job_bits2\<close> other than 0 counts as 1.
\<close>

fun pass2_records :: "nat \<Rightarrow> sock_gres list \<Rightarrow> heap \<times> int \<Rightarrow> heap \<times> int" where
  "pass2_records i [] st = st"
| "pass2_records i (sg # rest) (h, fini) =
     (case (gres_data (gres_state_job sg), gres_data (gres_state_node sg)) of
        (Some ja, Some na) \<Rightarrow>
          (case set_job_bits2 i sg (node_heap h na) (job_heap h ja) of
             (ret, js) \<Rightarrow>
               pass2_records i rest
                 (h\<lparr>job_heap := (job_heap h)(ja := js)\<rparr>,
                  if fini \<noteq> 0 then (if ret \<noteq> 0 then 1 else 0) else fini))
      | _ \<Rightarrow> pass2_records i rest (h, fini))"

text \<open>Lines 1650 to 1669: the second pass over the nodes, until a node ends it.\<close>

fun pass2_nodes ::
  "(nat \<Rightarrow> sock_gres list) \<Rightarrow> nat list \<Rightarrow> nat \<Rightarrow> heap \<times> int \<Rightarrow> heap \<times> int" where
  "pass2_nodes sock_gres_list [] jni st = st"
| "pass2_nodes sock_gres_list (i # rest) jni (h, fini) =
     (case pass2_records i (sock_gres_list jni) (h, -1) of
        (h', fini') \<Rightarrow>
          if fini' = 1 then (h', fini')
          else pass2_nodes sock_gres_list rest (Suc jni) (h', fini'))"

text \<open>
  \<open>gres_select_filter_select_and_set\<close>: the status and the heap. \<open>sock_gres_list\<close> gives the
  list of records of each node of the job, by the node's rank in the allocation.
\<close>

definition gres_select_filter_select_and_set ::
  "env \<Rightarrow> conf \<Rightarrow> (nat \<Rightarrow> sock_gres list) \<Rightarrow> job_record \<Rightarrow> gres_mc_data option \<Rightarrow> heap \<Rightarrow>
   status \<times> heap" where
  "gres_select_filter_select_and_set ev cf sock_gres_list job_ptr tres_mc_ptr h =
     (case job_resrcs job_ptr of
        None \<Rightarrow> (SLURM_ERROR, h)
      | Some job_res \<Rightarrow>
          (case jr_node_bitmap job_res of
             None \<Rightarrow> (SLURM_ERROR, h)
           | Some nodes \<Rightarrow>
               (case node_loop ev cf job_ptr tres_mc_ptr sock_gres_list (node_indices nodes) 0
                       (of_nat (bit_set_count nodes)) (h, -1, SLURM_SUCCESS, None) of
                  (h1, fini, r, tasks) \<Rightarrow>
                    if fini = 0
                    then (case pass2_nodes sock_gres_list (node_indices nodes) 0 (h1, fini) of
                            (h2, fini2) \<Rightarrow>
                              (if fini2 = 0 then ESLURM_NODE_NOT_AVAIL else r, h2))
                    else (r, h1))))"

section \<open>Definitions that follow the specification's words\<close>

text \<open>
  The specification's \<open>min_gres\<close>: the maximum of the node term (\<open>total_cnt\<close> for a whole
  node, else \<open>gres_per_node\<close>, else the default 1), the socket term and the task term; a
  counter that is zero contributes nothing, a sentinel multiplier is skipped.
\<close>

definition min_gres_spec :: "filter_args \<Rightarrow> gres_job_state \<Rightarrow> sock_gres \<Rightarrow> u64" where
  "min_gres_spec a js sg =
     max (max (if whole_node a then total_cnt sg
               else if gres_per_node js \<noteq> 0 then gres_per_node js else 1)
              (if gres_per_socket js = 0 then 0
               else if sock_per_node a = NO_VAL then gres_per_socket js
               else gres_per_socket js * ucast (sock_per_node a)))
         (if gres_per_task js = 0 then 0
          else if task_per_node a = NO_VAL16 then gres_per_task js
          else gres_per_task js * ucast (task_per_node a))"

text \<open>
  \<open>avail_cores_by_sock\<close> is either not built yet or the array for this node's core bitmap.
\<close>

definition acbs_ok :: "filter_args \<Rightarrow> bitstr \<Rightarrow> bool list option \<Rightarrow> bool" where
  "acbs_ok a cb acbs =
     (acbs = None \<or> acbs = Some (build_avail_cores_by_sock cb (sockets a) (cores_per_sock a)))"



text \<open>
  The specification's post-binding-prune count: the request's \<open>total_cnt\<close> minus the
  \<open>cnt_by_sock\<close> contributions of the sockets that have no available core.
\<close>

definition post_prune_cnt :: "filter_args \<Rightarrow> bitstr \<Rightarrow> sock_gres \<Rightarrow> u64" where
  "post_prune_cnt a cb sg =
     (case cnt_by_sock sg of
        None \<Rightarrow> total_cnt sg
      | Some cbs \<Rightarrow>
          total_cnt sg -
          sum_list (map (\<lambda>s. cbs ! s)
            (filter (\<lambda>s. \<not> build_avail_cores_by_sock cb (sockets a) (cores_per_sock a) ! s)
               [0..<unat (sockets a)])))"

text \<open>
  What a request adds to \<open>near_gpus\<close>: nothing unless its kind is a sharing one, else the
  post-binding-prune count, capped by the record's final \<open>max_node_gres\<close> when that is set.
\<close>

definition near_share :: "(u32 \<Rightarrow> bool) \<Rightarrow> filter_args \<Rightarrow> bitstr \<Rightarrow> sock_gres \<Rightarrow> sock_gres \<Rightarrow> u64" where
  "near_share sharing a cb sg sg' =
     (if sharing (plugin_id (gres_state_job sg))
      then (if max_node_gres sg' \<noteq> 0 \<and> max_node_gres sg' < post_prune_cnt a cb sg
            then max_node_gres sg' else post_prune_cnt a cb sg)
      else 0)"

text \<open>
  The job state without its three selection arrays: what is left are the request and the
  two counters \<open>total_gres\<close> and \<open>total_node_cnt\<close>.
\<close>

definition sel_cleared :: "gres_job_state \<Rightarrow> gres_job_state" where
  "sel_cleared js =
     js\<lparr>gres_bit_select := None, gres_cnt_node_select := None, gres_per_bit_select := None\<rparr>"

text \<open>
  Every bit that is set in \<open>b'\<close> and was not set in \<open>b\<close> is free in \<open>alloc\<close>; and the same
  for the selection bitmaps of node \<open>n\<close> in two job states, against the node's
  \<open>gres_bit_alloc\<close>.
\<close>

definition new_bits_free :: "bitstr \<Rightarrow> bitstr \<Rightarrow> bitstr \<Rightarrow> bool" where
  "new_bits_free alloc b b' = (\<forall>g. bit_test b' g \<and> \<not> bit_test b g \<longrightarrow> \<not> bit_test alloc g)"

definition adds_only_free :: "gres_node_state \<Rightarrow> nat \<Rightarrow> gres_job_state \<Rightarrow> gres_job_state \<Rightarrow> bool" where
  "adds_only_free ns n js js' =
     new_bits_free (the (gres_bit_alloc ns)) (sel_bits js n) (sel_bits js' n)"







text \<open>
  The frame of the selection: a job state with its five output fields blanked, so that two
  job states agree on it exactly when they differ in output fields only; two heaps are in
  \<open>heap_frame\<close> when the node states are the same and every job state differs in output
  fields only. For the filter: a request record with the three fields the filter computes
  blanked.
\<close>

definition outputs_cleared :: "gres_job_state \<Rightarrow> gres_job_state" where
  "outputs_cleared js =
     js\<lparr>gres_bit_select := None, gres_cnt_node_select := None, gres_per_bit_select := None,
        total_gres := 0, total_node_cnt := 0\<rparr>"

definition heap_frame :: "heap \<Rightarrow> heap \<Rightarrow> bool" where
  "heap_frame h h' =
     (node_heap h' = node_heap h \<and>
      (\<forall>a. outputs_cleared (job_heap h' a) = outputs_cleared (job_heap h a)))"

definition sock_gres_frame :: "sock_gres \<Rightarrow> sock_gres" where
  "sock_gres_frame sg = sg\<lparr>total_cnt := 0, cnt_by_sock := None, max_node_gres := 0\<rparr>"

section \<open>Example inputs\<close>

definition ex_js :: gres_job_state where
  "ex_js = \<lparr>cpus_per_gres = 0, def_cpus_per_gres = 0, ntasks_per_gres = 0, mem_per_gres = 0,
     def_mem_per_gres = 0, gres_per_job = 0, gres_per_node = 0, gres_per_socket = 0,
     gres_per_task = 0, type_id = 0, total_gres = 0, total_node_cnt = 0,
     gres_bit_select = None, gres_cnt_node_select = None, gres_per_bit_select = None\<rparr>"

definition ex_ns :: gres_node_state where
  "ex_ns = \<lparr>gres_cnt_avail = 4, gres_cnt_alloc = 0,
     gres_bit_alloc = Some [False, False, False, False],
     topo_cnt = 0, topo_gres_cnt_avail = None, topo_gres_cnt_alloc = None,
     topo_gres_bitmap = None, topo_type_id = [], link_len = 0, links_cnt = []\<rparr>"

definition ex_heap :: "gres_job_state \<Rightarrow> gres_node_state \<Rightarrow> heap" where
  "ex_heap js ns = \<lparr>job_heap = (\<lambda>_. js), node_heap = (\<lambda>_. ns)\<rparr>"

text \<open>Two sockets with two cores and two GPUs each; only socket 1 has available cores.\<close>

definition ex_sg :: sock_gres where
  "ex_sg = \<lparr>bits_any_sock = None,
     bits_by_sock = Some [Some [True, True, False, False], Some [False, False, True, True]],
     cnt_by_sock = Some [2, 2],
     gres_state_job = \<lparr>plugin_id = 7, config_flags = 0, gres_data = Some 0\<rparr>,
     gres_state_node = \<lparr>plugin_id = 7, config_flags = 0, gres_data = Some 0\<rparr>,
     max_node_gres = 0, sock_cnt = 2, total_cnt = 4\<rparr>"

definition ex_args :: filter_args where
  "ex_args = \<lparr>avail_mem = NO_VAL64, max_cpus = 4, enforce_binding = True, sockets = 2,
     cores_per_sock = 2, cpus_per_core = 1, sock_per_node = NO_VAL, task_per_node = NO_VAL16,
     cpus_per_task = 1, whole_node = False\<rparr>"

definition ex_cores :: bitstr where
  "ex_cores = [False, False, True, True]"

definition ex_sharing :: "u32 \<Rightarrow> bool" where
  "ex_sharing p = (p = 7)"

text \<open>
  A node with two shared devices of capacity 10, of which 5 and 2 are in use, and a
  request for one unit per node.
\<close>

definition ex_shared_ns :: gres_node_state where
  "ex_shared_ns = \<lparr>gres_cnt_avail = 20, gres_cnt_alloc = 7,
     gres_bit_alloc = Some [True, True],
     topo_cnt = 2, topo_gres_cnt_avail = Some [10, 10], topo_gres_cnt_alloc = Some [5, 2],
     topo_gres_bitmap = Some [Some [True, False], Some [False, True]],
     topo_type_id = [0, 0], link_len = 0, links_cnt = []\<rparr>"


definition ex_shared_js :: gres_job_state where
  "ex_shared_js = ex_js\<lparr>gres_per_node := 1,
     gres_bit_select := Some (\<lambda>_. Some [False, False]),
     gres_cnt_node_select := Some (\<lambda>_. 0),
     gres_per_bit_select := Some (\<lambda>_. Some [0, 0])\<rparr>"

definition ex_shared_sg :: sock_gres where
  "ex_shared_sg = \<lparr>bits_any_sock = None,
     bits_by_sock = Some [Some [True, True]],
     cnt_by_sock = Some [2],
     gres_state_job = \<lparr>plugin_id = 8, config_flags = 1, gres_data = Some 1\<rparr>,
     gres_state_node = \<lparr>plugin_id = 8, config_flags = 1, gres_data = Some 1\<rparr>,
     max_node_gres = 0, sock_cnt = 1, total_cnt = 13\<rparr>"

definition ex_conf :: "bool \<Rightarrow> bool \<Rightarrow> conf" where
  "ex_conf ll multi = \<lparr>LL_SHARED_GRES = ll, MULTIPLE_SHARING_GRES_PJ = multi,
     gres_use_busy_dev = (\<lambda>st ns. False), gres_id_shared = (\<lambda>f. f = 1)\<rparr>"

text \<open>
  A node with four GPUs on one socket; GPUs 0 and 1 have four links between them, every
  other pair has one. The request is for two GPUs per job.
\<close>

definition ex_gpu_ns :: gres_node_state where
  "ex_gpu_ns = \<lparr>gres_cnt_avail = 4, gres_cnt_alloc = 0,
     gres_bit_alloc = Some [False, False, False, False],
     topo_cnt = 4, topo_gres_cnt_avail = Some [1, 1, 1, 1],
     topo_gres_cnt_alloc = Some [0, 0, 0, 0],
     topo_gres_bitmap = Some [Some [True, False, False, False], Some [False, True, False, False],
                              Some [False, False, True, False], Some [False, False, False, True]],
     topo_type_id = [0, 0, 0, 0], link_len = 4,
     links_cnt = [[-1, 4, 1, 1], [4, -1, 1, 1], [1, 1, -1, 1], [1, 1, 1, -1]]\<rparr>"

definition ex_gpu_js :: gres_job_state where
  "ex_gpu_js = ex_js\<lparr>gres_per_job := 2,
     gres_bit_select := Some (\<lambda>_. Some [False, False, False, False]),
     gres_cnt_node_select := Some (\<lambda>_. 0)\<rparr>"

definition ex_gpu_sg :: sock_gres where
  "ex_gpu_sg = \<lparr>bits_any_sock = None,
     bits_by_sock = Some [Some [True, True, True, True]],
     cnt_by_sock = Some [4],
     gres_state_job = \<lparr>plugin_id = 7, config_flags = 0, gres_data = Some 0\<rparr>,
     gres_state_node = \<lparr>plugin_id = 7, config_flags = 0, gres_data = Some 0\<rparr>,
     max_node_gres = 0, sock_cnt = 1, total_cnt = 4\<rparr>"

text \<open>A job on one node with one socket of two cores, both allocated to it.\<close>

definition ex_env :: env where
  "ex_env = \<lparr>node_record_table = (\<lambda>_. \<lparr>tpc = 1, tot_sockets = 1\<rparr>),
     tasks_layout = (\<lambda>_. Some [1])\<rparr>"

definition ex_job_res :: job_resources where
  "ex_job_res = \<lparr>jr_node_bitmap = Some [True], jr_core_bitmap = [True, True],
     get_job_resources_cnt = (\<lambda>_. Some (1, 2)), get_job_resources_offset = (\<lambda>_. 0)\<rparr>"

definition ex_job :: job_record where
  "ex_job = \<lparr>job_resrcs = Some ex_job_res, flag_enforce_bind = False,
     flag_one_task_per_sharing = False\<rparr>"

section \<open>Properties of the filter\<close>

lemma max_zero_u64: "max x (0::u64) = x"
  by (simp add: max_def)

lemma min_gres_of_spec: "min_gres_of a js sg = min_gres_spec a js sg"
  by (simp add: min_gres_of_def min_gres_spec_def Let_def max_zero_u64)

lemma filter_one_accept:
  "filter_one sharing a cb js sg acbs ag ng = (False, sg', acbs', ag', ng') \<Longrightarrow>
   \<not> below_min (min_gres_of a js sg) sg'"
  by (auto simp: filter_one_def Let_def below_min_def split: if_splits prod.splits)


lemma filter_loop_rc:
  "filter_loop sharing a cb h sgs acbs ag ng = (rc, sgs', ag', ng') \<Longrightarrow> rc = 0 \<or> rc = -1"
  by (induction sgs arbitrary: acbs ag ng rc sgs' ag' ng')
     (auto split: prod.splits bool.splits)

lemma filter_loop_accept:
  "filter_loop sharing a cb h sgs acbs ag ng = (0, sgs', ag', ng') \<Longrightarrow> i < length sgs \<Longrightarrow>
   \<not> below_min (min_gres_of a (js_of h (sgs ! i)) (sgs ! i)) (sgs' ! i)"
proof (induction sgs arbitrary: acbs ag ng sgs' ag' ng' i)
  case Nil
  then show ?case by simp
next
  case (Cons sg rest)
  obtain rj sg1 acbs1 ag1 ng1 where
    one: "filter_one sharing a cb (js_of h sg) sg acbs ag ng = (rj, sg1, acbs1, ag1, ng1)"
    by (metis prod_cases5)
  show ?case
  proof (cases rj)
    case True
    with one Cons.prems show ?thesis by simp
  next
    case False
    obtain rc2 rest2 ag2 ng2 where
      two: "filter_loop sharing a cb h rest acbs1 ag1 ng1 = (rc2, rest2, ag2, ng2)"
      by (metis prod_cases4)
    from Cons.prems one False two have eq: "rc2 = 0" "sgs' = sg1 # rest2" by auto
    show ?thesis
    proof (cases i)
      case 0
      with eq one False filter_one_accept show ?thesis by fastforce
    next
      case (Suc j)
      with Cons.prems have "j < length rest" by simp
      from Cons.IH [OF two [unfolded eq(1)] this] Suc eq show ?thesis by simp
    qed
  qed
qed


lemma bind_socks_lazy:
  "acbs_ok a cb acbs \<Longrightarrow>
   bind_socks a (lazy_avail_cores a cb sg acbs) sg =
   bind_socks a (Some (build_avail_cores_by_sock cb (sockets a) (cores_per_sock a))) sg"
  by (auto simp: bind_socks_def lazy_avail_cores_def acbs_ok_def split: option.splits)

lemma lazy_avail_cores_ok: "acbs_ok a cb acbs \<Longrightarrow> acbs_ok a cb (lazy_avail_cores a cb sg acbs)"
  by (auto simp: lazy_avail_cores_def acbs_ok_def)

lemma filter_one_acbs:
  "fst (snd (snd (filter_one sharing a cb js sg acbs ag ng))) = acbs \<or>
   fst (snd (snd (filter_one sharing a cb js sg acbs ag ng))) =
     lazy_avail_cores a cb (note_mem_limit a js sg) acbs"
  by (simp add: filter_one_def Let_def split: prod.splits)

lemma filter_one_acbs_ok:
  assumes "acbs_ok a cb acbs"
    and "filter_one sharing a cb js sg acbs ag ng = (rj, sg', acbs', ag', ng')"
  shows "acbs_ok a cb acbs'"
  using filter_one_acbs [of sharing a cb js sg acbs ag ng] assms
    lazy_avail_cores_ok [OF assms(1), of "note_mem_limit a js sg"]
  by auto




lemma near_socks_sum:
  "near_socks avail ss near cbs =
   near - sum_list (map (\<lambda>s. cbs ! s) (filter (\<lambda>s. \<not> avail ! s) ss))"
  by (induction ss arbitrary: near) simp_all

lemma near_socks_cong:
  "\<forall>s\<in>set ss. cbs ! s = cbs' ! s \<Longrightarrow> near_socks avail ss near cbs = near_socks avail ss near cbs'"
  by (induction ss arbitrary: near) simp_all

lemma prune_socks_near:
  "distinct ss \<Longrightarrow> prune_socks avail ss tot cbs = (t, cbs') \<Longrightarrow>
   t = near_socks avail ss tot cbs"
proof (induction ss arbitrary: tot cbs)
  case Nil
  then show ?case by simp
next
  case (Cons s ss)
  from Cons.prems(1) have "\<forall>t\<in>set ss. cbs[s := 0] ! t = cbs ! t"
    by (metis distinct.simps(2) nth_list_update_neq)
  then have cong: "near_socks avail ss n (cbs[s := 0]) = near_socks avail ss n cbs" for n
    by (rule near_socks_cong)
  from Cons.prems(1) have d: "distinct ss" by simp
  show ?case
  proof (cases "avail ! s")
    case True
    with Cons.prems(2) have "prune_socks avail ss tot cbs = (t, cbs')" by simp
    from Cons.IH [OF d this] True show ?thesis by simp
  next
    case False
    with Cons.prems(2) have "prune_socks avail ss (tot - cbs ! s) (cbs[s := 0]) = (t, cbs')"
      by simp
    from Cons.IH [OF d this] False cong show ?thesis by simp
  qed
qed

lemma bind_socks_near:
  "snd (bind_socks a (Some (build_avail_cores_by_sock cb (sockets a) (cores_per_sock a))) sg) =
   post_prune_cnt a cb sg"
  by (auto simp: bind_socks_def post_prune_cnt_def near_socks_sum [symmetric] Let_def
           split: option.splits prod.splits dest: prune_socks_near [rotated])

lemma post_prune_cnt_note: "post_prune_cnt a cb (note_mem_limit a js sg) = post_prune_cnt a cb sg"
  by (simp add: post_prune_cnt_def note_mem_limit_def split: option.splits)

lemma bind_socks_job: "gres_state_job (fst (bind_socks a acbs sg)) = gres_state_job sg"
  by (auto simp: bind_socks_def Let_def split: option.splits prod.splits)

lemma limit_max_node_gres_job: "gres_state_job (limit_max_node_gres a js sg) = gres_state_job sg"
  by (auto simp: limit_max_node_gres_def set_max_node_gres_def split: prod.splits bool.splits)

lemma filter_one_near:
  assumes "acbs_ok a cb acbs"
    and "filter_one sharing a cb js sg acbs ag ng = (False, sg', acbs', ag', ng')"
  shows "ng' = (if sharing (plugin_id (gres_state_job sg))
                then near_add ng (near_share sharing a cb sg sg') else ng)"
proof -
  have job: "\<And>x. gres_state_job (cap_by_mem a js (cap_by_cpus a cb js (limit_max_node_gres a js
       (fst (bind_socks a x (note_mem_limit a js sg)))))) = gres_state_job sg"
    by (simp add: cap_by_mem_def cap_by_cpus_def Let_def limit_max_node_gres_job bind_socks_job
        note_mem_limit_def)
  have near: "snd (bind_socks a (lazy_avail_cores a cb (note_mem_limit a js sg) acbs)
       (note_mem_limit a js sg)) = post_prune_cnt a cb sg"
    by (simp add: bind_socks_lazy [OF assms(1)] bind_socks_near post_prune_cnt_note)
  from assms(2) show ?thesis
    using job [of "lazy_avail_cores a cb (note_mem_limit a js sg) acbs"] near
    by (auto simp: filter_one_def Let_def near_share_def cap_near_def
        split: prod.splits if_splits)
qed

lemma near_add_nat:
  assumes "unat ng \<le> 255" and "unat c < 2 ^ 64 - 255"
  shows "unat (near_add ng c) = min 255 (unat ng + unat c)"
proof -
  have u: "unat (ucast ng :: u64) = unat ng"
    using assms(1) by (simp add: unsigned_ucast_eq take_bit_eq_mod)
  have s: "unat (ucast ng + c :: u64) = unat ng + unat c"
    using assms u by (simp add: unat_word_ariths)
  have lt: "(ucast ng + c < (0xff :: u64)) = (unat ng + unat c < 255)"
    by (simp add: word_less_nat_alt s)
  show ?thesis
  proof (cases "unat ng + unat c < 255")
    case True
    then have c: "unat c < 255" by simp
    have "unat (ucast c :: u16) = unat c"
      using c by (simp add: unsigned_ucast_eq take_bit_eq_mod)
    then have "unat (ng + ucast c) = unat ng + unat c" using True
      by (simp add: unat_word_ariths)
    with True lt show ?thesis by (simp add: near_add_def)
  next
    case False
    with lt show ?thesis by (simp add: near_add_def)
  qed
qed


lemma near_share_nonsharing:
  "\<not> sharing (plugin_id (gres_state_job sg)) \<Longrightarrow> near_share sharing a cb sg sg' = 0"
  by (simp add: near_share_def)

lemma filter_loop_near:
  "acbs_ok a cb acbs \<Longrightarrow> unat ng \<le> 255 \<Longrightarrow>
   filter_loop sharing a cb h sgs acbs ag ng = (0, sgs', ag', ng') \<Longrightarrow>
   \<forall>i<length sgs. unat (near_share sharing a cb (sgs ! i) (sgs' ! i)) < 2 ^ 64 - 255 \<Longrightarrow>
   unat ng' = min 255 (unat ng + (\<Sum>i<length sgs. unat (near_share sharing a cb (sgs ! i) (sgs' ! i))))"
proof (induction sgs arbitrary: acbs ag ng sgs' ag' ng')
  case Nil
  then show ?case by simp
next
  case (Cons sg rest)
  obtain rj sg1 acbs1 ag1 ng1 where
    one: "filter_one sharing a cb (js_of h sg) sg acbs ag ng = (rj, sg1, acbs1, ag1, ng1)"
    by (metis prod_cases5)
  obtain rc2 rest2 ag2 ng2 where
    two: "filter_loop sharing a cb h rest acbs1 ag1 ng1 = (rc2, rest2, ag2, ng2)"
    by (metis prod_cases4)
  from Cons.prems(3) one two have rj: "\<not> rj" by (cases rj) auto
  with Cons.prems(3) one two have eq: "rc2 = 0" "sgs' = sg1 # rest2" "ng' = ng2" by auto
  have ok1: "acbs_ok a cb acbs1" using filter_one_acbs_ok [OF Cons.prems(1) one] .
  let ?c = "near_share sharing a cb sg sg1"
  have c: "unat ?c < 2 ^ 64 - 255" using Cons.prems(4) eq(2) by auto
  have ng1: "ng1 = (if sharing (plugin_id (gres_state_job sg)) then near_add ng ?c else ng)"
    using filter_one_near [OF Cons.prems(1)] one rj by simp
  have step: "unat ng1 = min 255 (unat ng + unat ?c)"
  proof (cases "sharing (plugin_id (gres_state_job sg))")
    case True
    with ng1 near_add_nat [OF Cons.prems(2) c] show ?thesis by simp
  next
    case False
    with ng1 Cons.prems(2) show ?thesis by (simp add: near_share_def)
  qed
  then have le: "unat ng1 \<le> 255" by simp
  have rest: "\<forall>i<length rest. unat (near_share sharing a cb (rest ! i) (rest2 ! i)) < 2 ^ 64 - 255"
    using Cons.prems(4) eq(2) by auto
  have "unat ng2 = min 255 (unat ng1 +
      (\<Sum>i<length rest. unat (near_share sharing a cb (rest ! i) (rest2 ! i))))"
    using Cons.IH [OF ok1 le two [unfolded eq(1)] rest] .
  moreover have "(\<Sum>i<length (sg # rest). unat (near_share sharing a cb ((sg # rest) ! i) (sgs' ! i))) =
      unat ?c + (\<Sum>i<length rest. unat (near_share sharing a cb (rest ! i) (rest2 ! i)))"
    by (simp add: eq(2) sum.lessThan_Suc_shift del: sum.lessThan_Suc)
  ultimately show ?case using step eq(3) by simp
qed



text \<open>
  C3. For every request of the list, the filter's \<open>min_gres\<close> is the specification's maximum,
  and the call returns -1 whenever the record's final \<open>total_cnt\<close> is below it, or its
  \<open>max_node_gres\<close> is set and below it.
\<close>

theorem remove_unusable_min_gres:
  assumes "gres_select_filter_remove_unusable sharing h (Some sgs) a (Some cb) = (rc, Some sgs', ag, ng)"
    and "i < length sgs"
  shows "min_gres_of a (js_of h (sgs ! i)) (sgs ! i) = min_gres_spec a (js_of h (sgs ! i)) (sgs ! i) \<and>
     (total_cnt (sgs' ! i) < min_gres_spec a (js_of h (sgs ! i)) (sgs ! i) \<or>
      (max_node_gres (sgs' ! i) \<noteq> 0 \<and>
       max_node_gres (sgs' ! i) < min_gres_spec a (js_of h (sgs ! i)) (sgs ! i))
      \<longrightarrow> rc = -1)"
proof -
  from assms obtain ag0 ng0 where
    loop: "filter_loop sharing a cb h sgs None ag0 ng0 = (rc, sgs', ag, ng)"
    by (auto simp: gres_select_filter_remove_unusable_def split: if_splits prod.splits)
  have "rc = 0 \<or> rc = -1" using loop by (rule filter_loop_rc)
  moreover have "rc = 0 \<Longrightarrow>
     \<not> below_min (min_gres_of a (js_of h (sgs ! i)) (sgs ! i)) (sgs' ! i)"
    using loop assms(2) filter_loop_accept by blast
  ultimately show ?thesis
    by (auto simp: min_gres_of_spec below_min_def)
qed


theorem remove_unusable_min_gres_witness:
  "gres_select_filter_remove_unusable ex_sharing
     (ex_heap (ex_js\<lparr>gres_per_socket := 3\<rparr>) ex_ns) (Some [ex_sg]) ex_args (Some ex_cores) =
     (-1, Some [ex_sg\<lparr>cnt_by_sock := Some [0, 2], total_cnt := 2\<rparr>], 0, 0) \<and>
   min_gres_spec ex_args (ex_js\<lparr>gres_per_socket := 3\<rparr>) ex_sg = 3 \<and>
   min_gres_of ex_args (ex_js\<lparr>gres_per_socket := 3\<rparr>) ex_sg = 3"
proof -
  let ?h = "ex_heap (ex_js\<lparr>gres_per_socket := 3\<rparr>) ex_ns"
  have run: "gres_select_filter_remove_unusable ex_sharing ?h (Some [ex_sg]) ex_args
      (Some ex_cores) =
     (-1, Some [ex_sg\<lparr>cnt_by_sock := Some [0, 2], total_cnt := 2\<rparr>], 0, 0)"
    by code_simp
  have i: "0 < length [ex_sg]" by simp
  have js: "js_of ?h ex_sg = ex_js\<lparr>gres_per_socket := 3\<rparr>"
    by (simp add: js_of_def ex_heap_def)
  have spec: "min_gres_spec ex_args (ex_js\<lparr>gres_per_socket := 3\<rparr>) ex_sg = 3"
    by code_simp
  from remove_unusable_min_gres [OF run i] js spec run show ?thesis by simp
qed




text \<open>
  C5, as the code has it. On a feasible return \<open>near_gpus\<close> is the sum, cut off at 255, over
  the requests of a sharing kind of the post-binding-prune count capped by the request's
  final \<open>max_node_gres\<close> when that is set. The counts are 64-bit; the sum is the plain one as
  long as no count is within 255 of the 64-bit limit.
\<close>

theorem remove_unusable_near_gpus:
  assumes "gres_select_filter_remove_unusable sharing h (Some sgs) a (Some cb) = (0, Some sgs', ag, ng)"
    and "\<forall>i<length sgs. unat (near_share sharing a cb (sgs ! i) (sgs' ! i)) < 2 ^ 64 - 255"
  shows "unat ng = min 255 (\<Sum>i<length sgs. unat (near_share sharing a cb (sgs ! i) (sgs' ! i)))"
proof (cases "length sgs = 0")
  case True
  with assms(1) show ?thesis
    by (simp add: gres_select_filter_remove_unusable_def)
next
  case False
  with assms(1) have loop: "filter_loop sharing a cb h sgs None 0 0 = (0, sgs', ag, ng)"
    by (auto simp: gres_select_filter_remove_unusable_def split: prod.splits)
  have "acbs_ok a cb None" by (simp add: acbs_ok_def)
  from filter_loop_near [OF this _ loop assms(2)] show ?thesis by simp
qed


theorem remove_unusable_near_gpus_witness:
  "gres_select_filter_remove_unusable ex_sharing
     (ex_heap (ex_js\<lparr>gres_per_socket := 1\<rparr>) ex_ns) (Some [ex_sg]) ex_args (Some ex_cores) =
     (0, Some [ex_sg\<lparr>cnt_by_sock := Some [0, 2], total_cnt := 2\<rparr>], 2, 2) \<and>
   unat (near_share ex_sharing ex_args ex_cores ex_sg
           (ex_sg\<lparr>cnt_by_sock := Some [0, 2], total_cnt := 2\<rparr>)) = 2 \<and>
   unat (2 :: u16) = min 255 (\<Sum>i<length [ex_sg].
      unat (near_share ex_sharing ex_args ex_cores ([ex_sg] ! i)
              ([ex_sg\<lparr>cnt_by_sock := Some [0, 2], total_cnt := 2\<rparr>] ! i)))"
proof -
  let ?sg' = "ex_sg\<lparr>cnt_by_sock := Some [0, 2], total_cnt := 2\<rparr>"
  have run: "gres_select_filter_remove_unusable ex_sharing
     (ex_heap (ex_js\<lparr>gres_per_socket := 1\<rparr>) ex_ns) (Some [ex_sg]) ex_args (Some ex_cores) =
     (0, Some [?sg'], 2, 2)"
    by code_simp
  have share: "unat (near_share ex_sharing ex_args ex_cores ex_sg ?sg') = 2"
    by code_simp
  have small: "\<forall>i<length [ex_sg].
      unat (near_share ex_sharing ex_args ex_cores ([ex_sg] ! i) ([?sg'] ! i)) < 2 ^ 64 - 255"
    using share by simp
  from remove_unusable_near_gpus [OF run small] run share show ?thesis by blast
qed

text \<open>
  C5 as stated fails: a sharing request with four usable GPUs, no socket buckets and
  \<open>gres_per_node = 2\<close> has a post-binding-prune count of 4, but \<open>max_node_gres\<close> becomes 2 and
  caps what is added, so \<open>near_gpus\<close> is 2.
\<close>

theorem remove_unusable_near_gpus_capped:
  "gres_select_filter_remove_unusable ex_sharing
     (ex_heap (ex_js\<lparr>gres_per_node := 2\<rparr>) ex_ns)
     (Some [ex_sg\<lparr>cnt_by_sock := None\<rparr>]) ex_args (Some ex_cores) =
     (0, Some [ex_sg\<lparr>cnt_by_sock := None, max_node_gres := 2\<rparr>], 4, 2) \<and>
   ex_sharing (plugin_id (gres_state_job (ex_sg\<lparr>cnt_by_sock := None\<rparr>))) \<and>
   post_prune_cnt ex_args ex_cores (ex_sg\<lparr>cnt_by_sock := None\<rparr>) = 4"
  by code_simp

text \<open>
  C9. With a \<open>NULL\<close> core bitmap, a \<open>NULL\<close> list or an empty list the filter returns 0, both
  counters are 0 and the list is as it was.
\<close>

theorem remove_unusable_trivial_inputs:
  "core_bitmap = None \<or> sock_gres_list = None \<or> sock_gres_list = Some [] \<Longrightarrow>
   gres_select_filter_remove_unusable sharing h sock_gres_list a core_bitmap =
     (0, sock_gres_list, 0, 0)"
  by (auto simp: gres_select_filter_remove_unusable_def split: option.splits)

theorem remove_unusable_trivial_inputs_witness:
  "gres_select_filter_remove_unusable ex_sharing (ex_heap ex_js ex_ns) (Some [ex_sg]) ex_args None =
     (0, Some [ex_sg], 0, 0)"
  using remove_unusable_trivial_inputs [of None "Some [ex_sg]" ex_sharing "ex_heap ex_js ex_ns" ex_args]
  by simp

section \<open>Properties of the pickers\<close>

lemma sel_cleared_simps [simp]:
  "sel_cleared (set_sel_bits js n b) = sel_cleared js"
  "sel_cleared (set_sel_cnt js n v) = sel_cleared js"
  "sel_cleared (set_sel_per_bit js n r) = sel_cleared js"
  by (simp_all add: sel_cleared_def set_sel_bits_def set_sel_cnt_def set_sel_per_bit_def)


lemma sel_cleared_select_bit [simp]: "sel_cleared (select_bit js n g) = sel_cleared js"
  by (simp add: select_bit_def Let_def)

lemma sel_cleared_unselect_bit [simp]: "sel_cleared (unselect_bit js n g) = sel_cleared js"
  by (simp add: unselect_bit_def Let_def)

lemma sel_cleared_shared_take [simp]: "sel_cleared (shared_take js n t c) = sel_cleared js"
  by (simp add: shared_take_def Let_def)

declare pick_gres_loop.simps [simp del]
declare prune_by_links.simps [simp del]
declare exclude_low_socks.simps [simp del]

lemma pick_gres_loop_frame:
  "sel_cleared (fst (pick_gres_loop ns n sb gc i st)) = sel_cleared (fst st)"
proof (induction ns n sb gc i st rule: pick_gres_loop.induct)
  case (1 ns n sb gc i js still sorted_gres lc)
  show ?case
    by (subst pick_gres_loop.simps) (use 1 in \<open>auto simp: Let_def\<close>)
qed

lemma pick_gres_topo_frame:
  "sel_cleared (fst (snd (pick_gres_topo sg ns k n si st))) = sel_cleared (fst st)"
proof (cases "sock_bits_of sg si")
  case None
  then show ?thesis by (simp add: pick_gres_topo_def)
next
  case (Some sb)
  let ?r = "pick_gres_loop ns n sb (bit_size (sel_bits (fst st) n)) 0
              (fst st, scast k, fst (snd st), snd (snd st))"
  have "sel_cleared (fst ?r) = sel_cleared (fst st)"
    using pick_gres_loop_frame [of ns n sb _ 0 "(fst st, scast k, fst (snd st), snd (snd st))"]
    by simp
  with Some show ?thesis
    by (auto simp: pick_gres_topo_def split: prod.splits)
qed








lemma sel_bits_simps [simp]:
  "sel_bits (set_sel_bits js n (Some b)) n = b"
  "sel_bits (set_sel_cnt js n v) m = sel_bits js m"
  "sel_bits (set_sel_per_bit js n r) m = sel_bits js m"
  "sel_bits (js\<lparr>total_gres := x\<rparr>) m = sel_bits js m"
  by (simp_all add: sel_bits_def set_sel_bits_def set_sel_cnt_def set_sel_per_bit_def)

lemma sel_bits_select_bit [simp]: "sel_bits (select_bit js n g) n = bit_set (sel_bits js n) g"
  by (simp add: select_bit_def Let_def)

lemma sel_bits_unselect_bit [simp]: "sel_bits (unselect_bit js n g) n = bit_clear (sel_bits js n) g"
  by (simp add: unselect_bit_def Let_def)

lemma adds_only_free_refl [simp]: "adds_only_free ns n js js"
  by (simp add: adds_only_free_def new_bits_free_def)

lemma adds_only_free_trans:
  "adds_only_free ns n js js' \<Longrightarrow> adds_only_free ns n js' js'' \<Longrightarrow> adds_only_free ns n js js''"
  unfolding adds_only_free_def new_bits_free_def by blast

lemma adds_only_free_total [simp]:
  "adds_only_free ns n js (js'\<lparr>total_gres := x\<rparr>) = adds_only_free ns n js js'"
  "adds_only_free ns n (js\<lparr>total_gres := x\<rparr>) js' = adds_only_free ns n js js'"
  by (simp_all add: adds_only_free_def)

lemma nth_list_update_any:
  "(xs[i := x]) ! j = (if i = j \<and> i < length xs then x else xs ! j)"
  by (cases "i < length xs") (auto simp: nth_list_update list_update_beyond)

lemma adds_only_free_select:
  "\<not> bit_test (the (gres_bit_alloc ns)) g \<Longrightarrow> adds_only_free ns n js (select_bit js n g)"
  by (auto simp: adds_only_free_def new_bits_free_def bit_test_def bit_set_def nth_list_update_any)

lemma adds_only_free_unselect: "adds_only_free ns n js (unselect_bit js n g)"
  by (auto simp: adds_only_free_def new_bits_free_def bit_test_def bit_clear_def nth_list_update_any)

lemma pick_gres_loop_free:
  "adds_only_free ns n (fst st) (fst (pick_gres_loop ns n sb gc i st))"
proof (induction ns n sb gc i st rule: pick_gres_loop.induct)
  case (1 ns n sb gc i js still sorted_gres lc)
  show ?case
    by (subst pick_gres_loop.simps)
       (use 1 in \<open>auto simp: Let_def intro: adds_only_free_trans [OF adds_only_free_select]\<close>)
qed

lemma pick_gres_topo_free:
  "adds_only_free ns n (fst st) (fst (snd (pick_gres_topo sg ns k n si st)))"
proof (cases "sock_bits_of sg si")
  case None
  then show ?thesis by (simp add: pick_gres_topo_def)
next
  case (Some sb)
  let ?r = "pick_gres_loop ns n sb (bit_size (sel_bits (fst st) n)) 0
              (fst st, scast k, fst (snd st), snd (snd st))"
  have "adds_only_free ns n (fst st) (fst ?r)"
    using pick_gres_loop_free [of ns n _ sb _ 0] by (metis fst_conv)
  with Some show ?thesis
    by (auto simp: pick_gres_topo_def split: prod.splits)
qed

lemma pick_gres_topo_free':
  "pick_gres_topo sg ns k n si (js, x) = (c, js', x') \<Longrightarrow> adds_only_free ns n js js'"
  using pick_gres_topo_free [of ns n "(js, x)" sg k si] by simp


subsection \<open>Invariants of the whole-GRES pickers\<close>

lemma node_pass_inv:
  assumes pick0: "\<forall>k si pst. I pst \<longrightarrow> I (snd (pick_gres_topo sg ns k n si pst))"
  shows "I (snd st) \<Longrightarrow> I (snd (node_pass sg ns n used flagged one ss st))"
proof (induction ss arbitrary: st)
  case Nil
  then show ?case by simp
next
  case (Cons s ss)
  obtain k pst where p:
    "pick_gres_topo sg ns (if one then 1 else fst st) n (int s) (snd st) = (k, pst)"
    by (cases "pick_gres_topo sg ns (if one then 1 else fst st) n (int s) (snd st)")
  from pick0 [rule_format, OF Cons.prems, of "if one then 1 else fst st" "int s"] p have "I pst" by simp
  then have "I (snd (node_pass sg ns n used flagged one ss (fst st - ucast k, pst)))"
    using Cons.IH [of "(fst st - ucast k, pst)"] by simp
  with Cons.IH [OF Cons.prems] Cons.prems p show ?case by simp
qed

lemma node_any_inv:
  assumes pick0: "\<forall>k si pst. I pst \<longrightarrow> I (snd (pick_gres_topo sg ns k n si pst))"
  shows "I (snd st) \<Longrightarrow> I (snd (node_any sg ns n one st))"
  using pick0 [rule_format, of "snd st" "if one then 1 else fst st" ANY_SOCK_TEST]
  by (auto simp: node_any_def split: prod.splits)

lemma set_node_bits_inv:
  assumes pick0: "\<forall>k si pst. I pst \<longrightarrow> I (snd (pick_gres_topo sg ns k n si pst))"
    and init: "I (js, init_links ns (bit_size (sel_bits js n)))"
  shows "\<exists>x. I (set_node_bits n sg ns used js, x)"
proof -
  let ?st0 = "(ucast (gres_per_node js) :: u32, js, init_links ns (bit_size (sel_bits js n)))"
  let ?st1 = "node_pass sg ns n used True True [0..<sock_cnt sg] ?st0"
  let ?st2 = "node_any sg ns n True ?st1"
  let ?st3 = "node_pass sg ns n used True False [0..<sock_cnt sg] ?st2"
  let ?st4 = "node_any sg ns n False ?st3"
  let ?st5 = "node_pass sg ns n used False False [0..<sock_cnt sg] ?st4"
  have "I (snd ?st0)" using init by simp
  then have "I (snd ?st1)" by (rule node_pass_inv [where I = I, OF pick0])
  then have "I (snd ?st2)" by (rule node_any_inv [where I = I, OF pick0])
  then have "I (snd ?st3)" by (rule node_pass_inv [where I = I, OF pick0])
  then have "I (snd ?st4)" by (rule node_any_inv [where I = I, OF pick0])
  then have "I (snd ?st5)" by (rule node_pass_inv [where I = I, OF pick0])
  moreover have "set_node_bits n sg ns used js = fst (snd ?st5)"
    by (simp add: set_node_bits_def Let_def)
  ultimately show ?thesis by (metis prod.collapse)
qed

lemma sock_pass_inv:
  assumes pick0: "\<forall>k si pst. I pst \<longrightarrow> I (snd (pick_gres_topo sg ns k n si pst))"
  shows "I st \<Longrightarrow> I (sock_pass sg ns n used ss st)"
proof (induction ss arbitrary: st)
  case Nil
  then show ?case by simp
next
  case (Cons s ss)
  obtain k st1 where p:
    "pick_gres_topo sg ns (ucast (gres_per_socket (fst st))) n (int s) st = (k, st1)"
    by (cases "pick_gres_topo sg ns (ucast (gres_per_socket (fst st))) n (int s) st")
  from pick0 [rule_format, OF Cons.prems, of "ucast (gres_per_socket (fst st))" "int s"] p have 1: "I st1"
    by simp
  have 2: "I (snd (pick_gres_topo sg ns k' n ANY_SOCK_TEST st1))" for k'
    by (rule pick0 [rule_format, OF 1])
  from Cons.IH [OF Cons.prems] Cons.IH [OF 1] Cons.IH [OF 2] p show ?case
    by (simp add: Let_def)
qed

lemma set_sock_bits_inv:
  assumes pick0: "\<forall>k si pst. I pst \<longrightarrow> I (snd (pick_gres_topo sg ns k n si pst))"
    and init: "I (js, init_links ns (bit_size (sel_bits js n)))"
  shows "\<exists>x. I (set_sock_bits n sg ns mc used cnt js, x)"
proof -
  have "I (sock_pass sg ns n (reshape_used_sock sg ns js mc used cnt) [0..<sock_cnt sg]
          (js, init_links ns (bit_size (sel_bits js n))))"
    by (rule sock_pass_inv [where I = I, OF pick0 init])
  then show ?thesis
    by (simp add: set_sock_bits_def Let_def) (metis prod.collapse)
qed

lemma task_pass_active_inv:
  assumes pick0: "\<forall>k si pst. I pst \<longrightarrow> I (snd (pick_gres_topo sg ns k n si pst))"
  shows "I (snd st) \<Longrightarrow> I (snd (task_pass_active sg ns n tps ss st))"
proof (induction ss arbitrary: st)
  case Nil
  then show ?case by simp
next
  case (Cons s ss)
  let ?k = "ucast (min (fst st) (ucast (tps ! s) * gres_per_task (fst (snd st)))) :: s32"
  obtain k pst where p: "pick_gres_topo sg ns ?k n (int s) (snd st) = (k, pst)"
    by (cases "pick_gres_topo sg ns ?k n (int s) (snd st)")
  from pick0 [rule_format, OF Cons.prems, of ?k "int s"] p have "I pst" by simp
  then have "I (snd (task_pass_active sg ns n tps ss (fst st - k, pst)))"
    using Cons.IH [of "(fst st - k, pst)"] by simp
  with Cons.IH [OF Cons.prems] p show ?case by (simp add: Let_def)
qed

lemma task_pass_all_inv:
  assumes pick0: "\<forall>k si pst. I pst \<longrightarrow> I (snd (pick_gres_topo sg ns k n si pst))"
  shows "I (snd st) \<Longrightarrow> I (snd (task_pass_all sg ns n ss st))"
proof (induction ss arbitrary: st)
  case Nil
  then show ?case by simp
next
  case (Cons s ss)
  obtain k pst where p: "pick_gres_topo sg ns (ucast (fst st)) n (int s) (snd st) = (k, pst)"
    by (cases "pick_gres_topo sg ns (ucast (fst st)) n (int s) (snd st)")
  from pick0 [rule_format, OF Cons.prems, of "ucast (fst st)" "int s"] p have "I pst" by simp
  then have "I (snd (task_pass_all sg ns n ss (fst st - k, pst)))"
    using Cons.IH [of "(fst st - k, pst)"] by simp
  with Cons.prems p show ?case by simp
qed

lemma set_task_bits_inv:
  assumes pick0: "\<forall>k si pst. I pst \<longrightarrow> I (snd (pick_gres_topo sg ns k n si pst))"
    and init: "I (js, init_links ns (bit_size (sel_bits js n)))"
  shows "\<exists>x. I (set_task_bits n sg ns tasks js, x)"
proof (cases tasks)
  case None
  with init show ?thesis by (simp add: set_task_bits_def) (metis prod.collapse)
next
  case (Some tps)
  let ?st0 = "(ucast (get_task_cnt_node tasks (sock_cnt sg)) * gres_per_task js, js,
               init_links ns (bit_size (sel_bits js n)))"
  let ?st1 = "task_pass_active sg ns n tps [0..<sock_cnt sg] ?st0"
  let ?st2 = "if fst ?st1 \<noteq> 0
              then (case pick_gres_topo sg ns (ucast (fst ?st1)) n ANY_SOCK_TEST (snd ?st1) of
                      (k, pst) \<Rightarrow> (fst ?st1 - k, pst))
              else ?st1"
  let ?st3 = "task_pass_all sg ns n [0..<sock_cnt sg] ?st2"
  have "I (snd ?st0)" using init by simp
  then have 1: "I (snd ?st1)" by (rule task_pass_active_inv [where I = I, OF pick0])
  have "I (snd ?st2)"
    using 1 pick0 [rule_format, OF 1, of "ucast (fst ?st1)" ANY_SOCK_TEST]
    by (auto split: prod.splits)
  then have "I (snd ?st3)" by (rule task_pass_all_inv [where I = I, OF pick0])
  moreover have "set_task_bits n sg ns tasks js = fst (snd ?st3)"
    using Some by (simp add: set_task_bits_def Let_def)
  ultimately show ?thesis by (metis prod.collapse)
qed


lemma job_pass_used_inv:
  assumes pick1: "\<forall>k si js. J js \<longrightarrow> J (fst (snd (pick_gres_topo sg ns k n si (js, None, None))))"
  shows "J (snd st) \<Longrightarrow> J (snd (job_pass_used sg ns n cos pick ss st))"
proof (induction ss arbitrary: st)
  case Nil
  then show ?case by simp
next
  case (Cons s ss)
  obtain k js' x where p:
    "pick_gres_topo sg ns (pick - fst st) n (int s) (snd st, None, None) = (k, js', x)"
    by (cases "pick_gres_topo sg ns (pick - fst st) n (int s) (snd st, None, None)")
  from pick1 [rule_format, OF Cons.prems, of "pick - fst st" "int s"] p have "J js'" by simp
  then have "J (snd (job_pass_used sg ns n cos pick ss (fst st + ucast k, js')))"
    using Cons.IH [of "(fst st + ucast k, js')"] by simp
  with Cons.IH [OF Cons.prems] Cons.prems p show ?case by simp
qed

lemma job_pass_unused_inv:
  assumes pick1: "\<forall>k si js. J js \<longrightarrow> J (fst (snd (pick_gres_topo sg ns k n si (js, None, None))))"
  shows "J (snd st) \<Longrightarrow> J (snd (job_pass_unused sg ns n cos ss st))"
proof (induction ss arbitrary: st)
  case Nil
  then show ?case by simp
next
  case (Cons s ss)
  obtain k js' x where p:
    "pick_gres_topo sg ns 1 n (int s) (snd st, None, None) = (k, js', x)"
    by (cases "pick_gres_topo sg ns 1 n (int s) (snd st, None, None)")
  from pick1 [rule_format, OF Cons.prems, of 1 "int s"] p have "J js'" by simp
  then have "J (snd (job_pass_unused sg ns n cos ss (a, js')))" for a
    using Cons.IH [of "(a, js')"] by simp
  with Cons.IH [OF Cons.prems] Cons.prems p show ?case by simp
qed

lemma worst_link_fold:
  "set gs \<subseteq> {..<gc} \<Longrightarrow>
   fst s0 = -1 \<or> (nat (fst s0) < gc \<and> bit_test sel (nat (fst s0))) \<Longrightarrow>
   fst (fold (worst_step ns sel bi) gs s0) = -1 \<or>
   (nat (fst (fold (worst_step ns sel bi) gs s0)) < gc \<and>
    bit_test sel (nat (fst (fold (worst_step ns sel bi) gs s0))))"
proof (induction gs arbitrary: s0)
  case Nil
  then show ?case by simp
next
  case (Cons g gs)
  have "fst (worst_step ns sel bi g s0) = -1 \<or>
    (nat (fst (worst_step ns sel bi g s0)) < gc \<and>
     bit_test sel (nat (fst (worst_step ns sel bi g s0))))"
    using Cons.prems by (auto simp: worst_step_def)
  with Cons.IH [of "worst_step ns sel bi g s0"] Cons.prems(1) show ?case by simp
qed

lemma worst_link_found:
  assumes "fst (worst_link ns sel gc bi) \<noteq> -1"
  shows "nat (fst (worst_link ns sel gc bi)) < gc \<and>
         bit_test sel (nat (fst (worst_link ns sel gc bi)))"
proof -
  have "set [0..<gc] \<subseteq> {..<gc}" by auto
  from worst_link_fold [OF this, of "(-1, uint NO_VAL16)" sel ns bi] assms show ?thesis
    by (simp add: worst_link_def)
qed

lemma prune_by_links_inv:
  "\<forall>js g. J js \<longrightarrow> g < gc \<longrightarrow> bit_test (sel_bits js n) g \<longrightarrow> J (unselect_bit js n g) \<Longrightarrow>
   J (fst st) \<Longrightarrow> J (fst (prune_by_links ns n gc mx bl bi st))"
proof (induction ns n gc mx bl bi st rule: prune_by_links.induct)
  case (1 ns n gc mx bl bi js alloc)
  show ?case
  proof (cases "mx <s alloc \<and> bl \<noteq> -1 \<and> fst (worst_link ns (sel_bits js n) gc bi) \<noteq> -1")
    case True
    let ?w = "fst (worst_link ns (sel_bits js n) gc bi)"
    from True worst_link_found [of ns "sel_bits js n" gc bi]
    have "nat ?w < gc" "bit_test (sel_bits js n) (nat ?w)" by simp_all
    with "1.prems"(2) "1.prems"(1) [rule_format, of js "nat ?w"]
    have "J (unselect_bit js n (nat ?w))" by simp
    with True "1.IH" [OF _ refl _ "1.prems"(1)] show ?thesis
      by (subst prune_by_links.simps) (simp add: Let_def)
  next
    case False
    with "1.prems"(2) show ?thesis
      by (subst prune_by_links.simps) (auto simp: Let_def)
  qed
qed


lemma job_bits1_select_inv:
  assumes pick1: "\<forall>k si js. J js \<longrightarrow> J (fst (snd (pick_gres_topo sg ns k n si (js, None, None))))"
    and init: "J js"
  shows "J (snd (job_bits1_select sg ns n cos pick js))"
proof -
  let ?st1 = "job_pass_used sg ns n cos pick [0..<sock_cnt sg] (0, js)"
  let ?st2 = "if fst ?st1 <s pick
                then (case pick_gres_topo sg ns (pick - fst ?st1) n ANY_SOCK_TEST
                             (snd ?st1, None, None) of
                        (k, js, x) \<Rightarrow> (fst ?st1 + ucast k, js))
                else ?st1"
  have 1: "J (snd ?st1)"
    using job_pass_used_inv [where J = J, OF pick1, of "(0, js)"] init by simp
  have 2: "J (snd ?st2)"
    using 1 pick1 [rule_format, OF 1, of "pick - fst ?st1" ANY_SOCK_TEST]
    by (auto split: prod.splits)
  have 3: "J (snd (job_pass_unused sg ns n cos [0..<sock_cnt sg] ?st2))"
    by (rule job_pass_unused_inv [where J = J, OF pick1 2])
  from 2 3 show ?thesis by (simp add: job_bits1_select_def Let_def)
qed

lemma job_bits1_prune_inv:
  assumes unsel: "\<forall>js g. J js \<longrightarrow> g < gc \<longrightarrow> bit_test (sel_bits js n) g \<longrightarrow> J (unselect_bit js n g)"
    and init: "J (snd st)"
  shows "J (fst (job_bits1_prune ns n gc mx st))"
  using init prune_by_links_inv [where J = J and st = "(snd st, fst st)", OF unsel]
  by (simp add: job_bits1_prune_def Let_def)

lemma set_job_bits1_inv:
  assumes pick1: "\<forall>k si js. J js \<longrightarrow> J (fst (snd (pick_gres_topo sg ns k n si (js, None, None))))"
    and unsel: "\<forall>js' g. J js' \<longrightarrow> g < bit_size (sel_bits js n) \<longrightarrow> bit_test (sel_bits js' n) g \<longrightarrow>
                  J (unselect_bit js' n g)"
    and total: "\<forall>js v. J js \<longrightarrow> J (js\<lparr>total_gres := v\<rparr>)"
    and init: "J js"
  shows "J (snd (set_job_bits1 n jni rem sg ns mc cpc cos tc js))"
proof -
  define js0 where "js0 = (if jni = 0 then js\<lparr>total_gres := 0\<rparr> else js)"
  have gc0: "bit_size (sel_bits js0 n) = bit_size (sel_bits js n)" by (simp add: js0_def)
  have "J js0" using init total by (simp add: js0_def)
  then have "J (snd (job_bits1_select sg ns n cos pick js0))" for pick
    by (rule job_bits1_select_inv [where J = J, OF pick1])
  then have "J (fst (job_bits1_prune ns n (bit_size (sel_bits js n)) mx
                       (job_bits1_select sg ns n cos pick js0)))" for pick mx
    by (rule job_bits1_prune_inv [where J = J, OF unsel])
  with total show ?thesis
    by (simp add: set_job_bits1_def Let_def js0_def [symmetric] gc0)
qed

lemma job2_pass_inv:
  assumes pick0: "\<forall>k si pst. I pst \<longrightarrow> I (snd (pick_gres_topo sg ns k n si pst))"
    and total: "\<forall>js x v. I (js, x) \<longrightarrow> I (js\<lparr>total_gres := v\<rparr>, x)"
  shows "I st \<Longrightarrow> I (job2_pass sg ns n ss st)"
proof (induction ss arbitrary: st)
  case Nil
  then show ?case by simp
next
  case (Cons s ss)
  let ?k = "ucast (gres_per_job (fst st) - total_gres (fst st)) :: s32"
  obtain k js' x where p: "pick_gres_topo sg ns ?k n (int s) st = (k, js', x)"
    by (cases "pick_gres_topo sg ns ?k n (int s) st")
  from pick0 [rule_format, OF Cons.prems, of ?k "int s"] p have "I (js', x)" by simp
  with total have "I (js'\<lparr>total_gres := total_gres js' + k\<rparr>, x)" by blast
  from Cons.IH [OF this] Cons.prems p show ?case by simp
qed

lemma set_job_bits2_inv:
  assumes pick0: "\<forall>k si pst. I pst \<longrightarrow> I (snd (pick_gres_topo sg ns k n si pst))"
    and total: "\<forall>js x v. I (js, x) \<longrightarrow> I (js\<lparr>total_gres := v\<rparr>, x)"
    and init: "I (js, None, None)"
    and seed: "I (js, seed_links ns (sel_bits js n) (bit_size (sel_bits js n)))"
  shows "\<exists>x. I (snd (set_job_bits2 n sg ns js), x)"
proof -
  let ?st1 = "job2_pass sg ns n [0..<sock_cnt sg] (js, job_bits2_scratch ns n js)"
  have "I (js, job_bits2_scratch ns n js)" using init seed by (simp add: job_bits2_scratch_def)
  then have 1: "I ?st1" by (rule job2_pass_inv [where I = I, OF pick0 total])
  have 2: "I (job_bits2_any sg ns n ?st1)"
  proof (cases "gres_per_job (fst ?st1) > total_gres (fst ?st1)")
    case True
    let ?k = "ucast (gres_per_job (fst ?st1) - total_gres (fst ?st1)) :: s32"
    obtain k js' x where p: "pick_gres_topo sg ns ?k n ANY_SOCK_TEST ?st1 = (k, js', x)"
      by (cases "pick_gres_topo sg ns ?k n ANY_SOCK_TEST ?st1")
    from pick0 [rule_format, OF 1, of ?k ANY_SOCK_TEST] p have "I (js', x)" by simp
    with total have "I (js'\<lparr>total_gres := total_gres js' + k\<rparr>, x)" by blast
    with True p show ?thesis by (simp add: job_bits2_any_def)
  next
    case False
    with 1 show ?thesis by (simp add: job_bits2_any_def)
  qed
  have "snd (set_job_bits2 n sg ns js) = js \<or>
        snd (set_job_bits2 n sg ns js) = fst (job_bits2_any sg ns n ?st1)"
    by (simp add: set_job_bits2_def Let_def)
  with init 2 show ?thesis by (metis prod.collapse)
qed

subsection \<open>Invariants of the shared-GRES pickers\<close>

lemma pick_shared_loop_inv:
  assumes take: "\<forall>js t c. J js \<longrightarrow> t \<in> T \<longrightarrow> J (shared_take js n t c)"
  shows "set ts \<subseteq> T \<Longrightarrow> J (fst st) \<Longrightarrow> J (fst (pick_shared_loop ns ubd usd nr n sb ts st))"
proof (induction ts arbitrary: st)
  case Nil
  then show ?case by (cases st) simp
next
  case (Cons t ts)
  obtain js needed where st: "st = (js, needed)" by (cases st)
  from Cons.prems have t: "t \<in> T" and ts: "set ts \<subseteq> T" by auto
  from Cons.prems st have J: "J js" by simp
  have "J (shared_take js n t c)" for c using take J t by blast
  with Cons.IH [OF ts] J st show ?case by (simp add: Let_def)
qed

lemma pick_shared_gres_topo_inv:
  assumes take: "\<forall>js t c. J js \<longrightarrow> t \<in> set (shared_visit_order ti (topo_cnt ns)) \<longrightarrow>
                   J (shared_take js n t c)"
  shows "J (fst st) \<Longrightarrow> J (fst (pick_shared_gres_topo sg ns ubd usd nr n si ti st))"
  using pick_shared_loop_inv [where J = J, OF take subset_refl, of st]
  by (auto simp: pick_shared_gres_topo_def split: option.splits)

lemma pick_shared_socks_inv:
  assumes take: "\<forall>js t c. J js \<longrightarrow> t \<in> set (shared_visit_order ti (topo_cnt ns)) \<longrightarrow>
                   J (shared_take js n t c)"
  shows "J (fst st) \<Longrightarrow> J (fst (pick_shared_socks sg ns ubd usd nr n ti used flagged ss st))"
proof (induction ss arbitrary: st)
  case Nil
  then show ?case by simp
next
  case (Cons s ss)
  have "J (fst (pick_shared_gres_topo sg ns ubd usd nr n (int s) ti st))"
    using Cons.prems by (rule pick_shared_gres_topo_inv [where J = J, OF take])
  from Cons.IH [OF this] Cons.IH [OF Cons.prems] Cons.prems show ?case by simp
qed

lemma pick_shared_gres_inv:
  assumes take: "\<forall>js t c. J js \<longrightarrow>
                   t \<in> set (shared_visit_order (shared_topo_index cf ns) (topo_cnt ns)) \<longrightarrow>
                   J (shared_take js n t c)"
  shows "J (fst st) \<Longrightarrow> J (fst (pick_shared_gres cf sg ns n ubd usd nr eb used st))"
proof -
  assume J: "J (fst st)"
  let ?ti = "shared_topo_index cf ns"
  let ?st1 = "pick_shared_socks sg ns ubd usd nr n ?ti used True [0..<sock_cnt sg] st"
  let ?st2 = "if snd ?st1 \<noteq> 0
              then pick_shared_gres_topo sg ns ubd usd nr n ANY_SOCK_TEST ?ti ?st1 else ?st1"
  let ?st3 = "if \<not> eb
              then pick_shared_socks sg ns ubd usd nr n ?ti used False [0..<sock_cnt sg] ?st2
              else ?st2"
  have 1: "J (fst ?st1)" using J by (rule pick_shared_socks_inv [where J = J, OF take])
  have 2: "J (fst ?st2)"
    using 1 pick_shared_gres_topo_inv [where J = J, OF take 1] by simp
  have 3: "J (fst ?st3)"
    using 2 pick_shared_socks_inv [where J = J, OF take 2] by simp
  then show ?thesis by (simp add: pick_shared_gres_def Let_def)
qed

lemma set_shared_node_bits_inv:
  assumes take: "\<forall>js t c. J js \<longrightarrow>
                   t \<in> set (shared_visit_order (shared_topo_index cf ns) (topo_cnt ns)) \<longrightarrow>
                   J (shared_take js n t c)"
    and init: "J js"
  shows "J (snd (set_shared_node_bits cf n sg ns eb used js))"
proof -
  let ?ubd = "gres_use_busy_dev cf (gres_state_node sg) ns"
  let ?st1 = "pick_shared_gres cf sg ns n ?ubd True False eb used (js, gres_per_node js)"
  let ?st2 = "if snd ?st1 \<noteq> 0 \<and> MULTIPLE_SHARING_GRES_PJ cf
              then pick_shared_gres cf sg ns n ?ubd False False eb used ?st1 else ?st1"
  have 1: "J (fst ?st1)"
    using pick_shared_gres_inv [where J = J, OF take, of "(js, gres_per_node js)"] init by simp
  have "J (fst ?st2)"
    using 1 pick_shared_gres_inv [where J = J, OF take 1] by simp
  then show ?thesis by (simp add: set_shared_node_bits_def Let_def)
qed

lemma shared_tasks_on_sock_inv:
  assumes take: "\<forall>js t c. J js \<longrightarrow>
                   t \<in> set (shared_visit_order (shared_topo_index cf ns) (topo_cnt ns)) \<longrightarrow>
                   J (shared_take js n t c)"
  shows "J (snd st) \<Longrightarrow> J (snd (shared_tasks_on_sock cf n sg ns ubd eb nts used i st))"
proof (induction i arbitrary: st)
  case 0
  then show ?case by (cases st) simp
next
  case (Suc i)
  obtain r js where st: "st = (r, js)" by (cases st)
  with Suc.prems have J: "J js" by simp
  let ?p = "pick_shared_gres cf sg ns n ubd True nts eb used (js, gres_per_task js)"
  have 1: "J (fst ?p)"
    using pick_shared_gres_inv [where J = J, OF take, of "(js, gres_per_task js)"] J by simp
  from Suc.IH [of "(r, fst ?p)"] 1 st show ?case by (simp add: Let_def)
qed

lemma shared_tasks_socks_inv:
  assumes take: "\<forall>js t c. J js \<longrightarrow>
                   t \<in> set (shared_visit_order (shared_topo_index cf ns) (topo_cnt ns)) \<longrightarrow>
                   J (shared_take js n t c)"
  shows "J (snd st) \<Longrightarrow> J (snd (shared_tasks_socks cf n sg ns ubd eb nts tps ss st))"
proof (induction ss arbitrary: st)
  case Nil
  then show ?case by simp
next
  case (Cons s ss)
  have "J (snd (shared_tasks_on_sock cf n sg ns ubd eb nts ((replicate (sock_cnt sg) 0)[s := 1])
                 (unat (tps ! s)) st))"
    using Cons.prems by (rule shared_tasks_on_sock_inv [where J = J, OF take])
  from Cons.IH [OF this] show ?case by simp
qed

lemma set_shared_task_bits_inv:
  assumes take: "\<forall>js t c. J js \<longrightarrow>
                   t \<in> set (shared_visit_order (shared_topo_index cf ns) (topo_cnt ns)) \<longrightarrow>
                   J (shared_take js n t c)"
    and init: "J js"
  shows "J (snd (set_shared_task_bits cf n sg ns eb nts tasks js))"
proof (cases tasks)
  case None
  with init show ?thesis by (simp add: set_shared_task_bits_def)
next
  case (Some tps)
  let ?ubd = "gres_use_busy_dev cf (gres_state_node sg) ns"
  let ?need = "gres_per_task js * ucast (get_task_cnt_node tasks (sock_cnt sg))"
  have 1: "J (fst (pick_shared_gres cf sg ns n ?ubd True False eb tps (js, ?need)))"
    using pick_shared_gres_inv [where J = J, OF take, of "(js, ?need)"] init by simp
  have 2: "J (snd (shared_tasks_socks cf n sg ns ?ubd eb nts tps [0..<sock_cnt sg]
                    (SLURM_SUCCESS, js)))"
    using shared_tasks_socks_inv [where J = J, OF take, of "(SLURM_SUCCESS, js)"] init by simp
  from 1 2 Some show ?thesis by (simp add: set_shared_task_bits_def Let_def)
qed


subsection \<open>The least-loaded order\<close>

lemma mset_qsort_insert: "mset (qsort_insert cmp x ys) = add_mset x (mset ys)"
  by (induction ys) simp_all

lemma mset_qsort: "mset (qsort cmp xs) = mset xs"
  by (induction xs) (simp_all add: qsort_def mset_qsort_insert)

lemma set_qsort: "set (qsort cmp xs) = set xs"
  using mset_qsort [of cmp xs] by (metis set_mset_mset)















subsection \<open>The slot that serves a single-device need\<close>


lemma pick_shared_loop_done [simp]: "pick_shared_loop ns ubd usd nr n sb ts (js, 0) = (js, 0)"
  by (cases ts) simp_all




lemma pick_shared_socks_done [simp]:
  "pick_shared_socks sg ns ubd usd nr n ti used flagged ss (js, 0) = (js, 0)"
  by (cases ss) simp_all



subsection \<open>Bits added by the whole-GRES pickers\<close>

lemma adds_only_free_pick:
  "\<forall>k si pst. adds_only_free ns n js0 (fst pst) \<longrightarrow>
     adds_only_free ns n js0 (fst (snd (pick_gres_topo sg ns k n si pst)))"
  using adds_only_free_trans pick_gres_topo_free by blast

lemma adds_only_free_pick1:
  "\<forall>k si js. adds_only_free ns n js0 js \<longrightarrow>
     adds_only_free ns n js0 (fst (snd (pick_gres_topo sg ns k n si (js, None, None))))"
  using adds_only_free_pick [of ns n js0 sg] by (metis fst_conv)

section \<open>Claims about the pickers\<close>

text \<open>
  C2, as the code has it. Every bit that one of the five whole-GRES pickers sets in
  \<open>gres_bit_select[n]\<close> is clear in the node's \<open>gres_bit_alloc\<close>. The shared pickers do not
  look at \<open>gres_bit_alloc\<close>: they go by the capacity left in a slot.
\<close>

theorem whole_pickers_avoid_allocated:
  assumes "js' = set_node_bits n sg ns used_sock js \<or>
           js' = set_sock_bits n sg ns mc used_sock cnt js \<or>
           js' = set_task_bits n sg ns tasks js \<or>
           js' = snd (set_job_bits1 n jni rem sg ns mc cpc used_sock tc js) \<or>
           js' = snd (set_job_bits2 n sg ns js)"
    and "bit_test (sel_bits js' n) g" and "\<not> bit_test (sel_bits js n) g"
  shows "\<not> bit_test (the (gres_bit_alloc ns)) g"
proof -
  let ?I = "\<lambda>pst. adds_only_free ns n js (fst pst)"
  have pick: "\<forall>k si pst. ?I pst \<longrightarrow> ?I (snd (pick_gres_topo sg ns k n si pst))"
    by (rule adds_only_free_pick)
  have init: "?I (js, x)" for x by simp
  have a: "adds_only_free ns n js (set_node_bits n sg ns used_sock js)"
    using set_node_bits_inv [where I = ?I, OF pick init] by simp
  have b: "adds_only_free ns n js (set_sock_bits n sg ns mc used_sock cnt js)"
    using set_sock_bits_inv [where I = ?I, OF pick init] by simp
  have c: "adds_only_free ns n js (set_task_bits n sg ns tasks js)"
    using set_task_bits_inv [where I = ?I, OF pick init] by simp
  have d: "adds_only_free ns n js (snd (set_job_bits1 n jni rem sg ns mc cpc used_sock tc js))"
    by (rule set_job_bits1_inv [where J = "adds_only_free ns n js", OF adds_only_free_pick1])
       (auto intro: adds_only_free_trans adds_only_free_unselect)
  have e: "adds_only_free ns n js (snd (set_job_bits2 n sg ns js))"
    using set_job_bits2_inv [where I = ?I, OF pick _ init init] by simp
  from assms(1) a b c d e have "adds_only_free ns n js js'" by auto
  with assms(2,3) show ?thesis by (auto simp: adds_only_free_def new_bits_free_def)
qed


theorem whole_pickers_avoid_allocated_witness:
  "bit_test (sel_bits (set_node_bits 0 ex_gpu_sg
       (ex_gpu_ns\<lparr>gres_bit_alloc := Some [True, False, False, False]\<rparr>) [2]
       (ex_gpu_js\<lparr>gres_per_job := 0, gres_per_node := 2\<rparr>)) 0) 1 \<and>
   \<not> bit_test (sel_bits (ex_gpu_js\<lparr>gres_per_job := 0, gres_per_node := 2\<rparr>) 0) 1 \<and>
   \<not> bit_test (the (gres_bit_alloc
       (ex_gpu_ns\<lparr>gres_bit_alloc := Some [True, False, False, False]\<rparr>))) 1"
proof -
  let ?ns = "ex_gpu_ns\<lparr>gres_bit_alloc := Some [True, False, False, False]\<rparr>"
  let ?js = "ex_gpu_js\<lparr>gres_per_job := 0, gres_per_node := 2\<rparr>"
  have new: "bit_test (sel_bits (set_node_bits 0 ex_gpu_sg ?ns [2] ?js) 0) 1" by code_simp
  have old: "\<not> bit_test (sel_bits ?js 0) 1" by code_simp
  from whole_pickers_avoid_allocated [OF disjI1 [OF refl] new old] new old
  show ?thesis by simp
qed

text \<open>
  C2 as stated fails for the shared pickers: with both devices marked in \<open>gres_bit_alloc\<close>
  and 5 of 10 units of device 0 in use, a request for one unit per node selects slot 0.
\<close>

theorem shared_picker_takes_allocated:
  "bit_test (sel_bits (snd (set_shared_node_bits (ex_conf False False) 0 ex_shared_sg ex_shared_ns
                              False [1] ex_shared_js)) 0) 0 \<and>
   bit_test (the (gres_bit_alloc ex_shared_ns)) 0 \<and>
   sel_bits ex_shared_js 0 = [False, False]"
  by code_simp







section \<open>Properties of the orchestrator\<close>

subsection \<open>What the selection leaves alone\<close>

lemma outputs_cleared_simps [simp]:
  "outputs_cleared (set_sel_bits js n b) = outputs_cleared js"
  "outputs_cleared (set_sel_cnt js n v) = outputs_cleared js"
  "outputs_cleared (set_sel_per_bit js n r) = outputs_cleared js"
  "outputs_cleared (js\<lparr>total_gres := x\<rparr>) = outputs_cleared js"
  "outputs_cleared (js\<lparr>total_node_cnt := y\<rparr>) = outputs_cleared js"
  "outputs_cleared (js\<lparr>gres_bit_select := p\<rparr>) = outputs_cleared js"
  "outputs_cleared (js\<lparr>gres_cnt_node_select := q\<rparr>) = outputs_cleared js"
  "outputs_cleared (js\<lparr>gres_per_bit_select := u\<rparr>) = outputs_cleared js"
  by (simp_all add: outputs_cleared_def set_sel_bits_def set_sel_cnt_def set_sel_per_bit_def)

lemma outputs_cleared_sel:
  assumes "sel_cleared a = sel_cleared b"
  shows "outputs_cleared a = outputs_cleared b"
proof -
  have "outputs_cleared a = outputs_cleared (sel_cleared a)"
    "outputs_cleared b = outputs_cleared (sel_cleared b)"
    by (simp_all add: outputs_cleared_def sel_cleared_def)
  with assms show ?thesis by simp
qed

lemma outputs_cleared_pick:
  "\<forall>k si pst. outputs_cleared (fst pst) = outputs_cleared js0 \<longrightarrow>
     outputs_cleared (fst (snd (pick_gres_topo sg ns k n si pst))) = outputs_cleared js0"
  using outputs_cleared_sel [OF pick_gres_topo_frame] by metis

lemma outputs_cleared_pick1:
  "\<forall>k si js. outputs_cleared js = outputs_cleared js0 \<longrightarrow>
     outputs_cleared (fst (snd (pick_gres_topo sg ns k n si (js, None, None)))) =
     outputs_cleared js0"
  using outputs_cleared_pick [of js0 sg ns n] by (metis fst_conv)

lemma outputs_cleared_take:
  "\<forall>js t c. outputs_cleared js = outputs_cleared js0 \<longrightarrow> t \<in> T \<longrightarrow>
     outputs_cleared (shared_take js n t c) = outputs_cleared js0"
  by (simp add: shared_take_def Let_def)

lemma outputs_cleared_whole:
  "outputs_cleared (set_node_bits n sg ns used js) = outputs_cleared js"
  "outputs_cleared (set_sock_bits n sg ns mc used cnt js) = outputs_cleared js"
  "outputs_cleared (set_task_bits n sg ns tasks js) = outputs_cleared js"
  "outputs_cleared (snd (set_job_bits1 n jni rem sg ns mc cpc used tc js)) = outputs_cleared js"
  "outputs_cleared (snd (set_job_bits2 n sg ns js)) = outputs_cleared js"
proof -
  let ?I = "\<lambda>pst. outputs_cleared (fst pst) = outputs_cleared js"
  have pick: "\<forall>k si pst. ?I pst \<longrightarrow> ?I (snd (pick_gres_topo sg ns k n si pst))"
    by (rule outputs_cleared_pick)
  have init: "?I (js, x)" for x by simp
  show "outputs_cleared (set_node_bits n sg ns used js) = outputs_cleared js"
    using set_node_bits_inv [where I = ?I, OF pick init] by simp
  show "outputs_cleared (set_sock_bits n sg ns mc used cnt js) = outputs_cleared js"
    using set_sock_bits_inv [where I = ?I, OF pick init] by simp
  show "outputs_cleared (set_task_bits n sg ns tasks js) = outputs_cleared js"
    using set_task_bits_inv [where I = ?I, OF pick init] by simp
  show "outputs_cleared (snd (set_job_bits1 n jni rem sg ns mc cpc used tc js)) = outputs_cleared js"
    by (rule set_job_bits1_inv [where J = "\<lambda>j. outputs_cleared j = outputs_cleared js",
          OF outputs_cleared_pick1])
       (simp_all add: unselect_bit_def Let_def)
  show "outputs_cleared (snd (set_job_bits2 n sg ns js)) = outputs_cleared js"
    using set_job_bits2_inv [where I = ?I, OF pick _ init init] by simp
qed

lemma outputs_cleared_shared:
  "outputs_cleared (snd (set_shared_node_bits cf n sg ns eb used js)) = outputs_cleared js"
  "outputs_cleared (snd (set_shared_task_bits cf n sg ns eb nts tasks js)) = outputs_cleared js"
proof -
  let ?J = "\<lambda>j. outputs_cleared j = outputs_cleared js"
  show "outputs_cleared (snd (set_shared_node_bits cf n sg ns eb used js)) = outputs_cleared js"
    by (rule set_shared_node_bits_inv [where J = ?J, OF outputs_cleared_take]) simp
  show "outputs_cleared (snd (set_shared_task_bits cf n sg ns eb nts tasks js)) = outputs_cleared js"
    by (rule set_shared_task_bits_inv [where J = ?J, OF outputs_cleared_take]) simp
qed

lemma outputs_cleared_prepare:
  "outputs_cleared (prepare_job_state nodes n js) = outputs_cleared js"
  by (simp add: prepare_job_state_def Let_def)

lemma outputs_cleared_count:
  "outputs_cleared (count_without_topo ns args js) = outputs_cleared js"
  by (simp add: count_without_topo_def Let_def)

lemma outputs_cleared_fresh:
  "outputs_cleared (fresh_selection ns n js) = outputs_cleared js"
  by (simp add: fresh_selection_def Let_def)

lemma outputs_cleared_init_per_bit:
  "outputs_cleared (init_gres_per_bit_select js n) = outputs_cleared js"
  by (simp add: init_gres_per_bit_select_def Let_def)

lemma outputs_cleared_dispatch:
  "outputs_cleared (fst (dispatch_pickers cf job mc sg ns args js)) = outputs_cleared js"
  by (simp add: dispatch_pickers_def Let_def split_beta outputs_cleared_whole
      outputs_cleared_shared outputs_cleared_init_per_bit)

lemma heap_frame_refl [simp]: "heap_frame h h"
  by (simp add: heap_frame_def)

lemma heap_frame_trans: "heap_frame h h' \<Longrightarrow> heap_frame h' h'' \<Longrightarrow> heap_frame h h''"
  by (simp add: heap_frame_def)

lemma heap_frame_update:
  "outputs_cleared js = outputs_cleared (job_heap h a) \<Longrightarrow>
   heap_frame h (h\<lparr>job_heap := (job_heap h)(a := js)\<rparr>)"
  by (simp add: heap_frame_def)

lemma select_and_set_node_frame:
  "heap_frame (fst st) (fst (snd (select_and_set_node ev cf job mc sg st)))"
proof (cases "gres_data (gres_state_job sg)")
  case None
  then show ?thesis by (simp add: select_and_set_node_def)
next
  case (Some ja)
  show ?thesis
  proof (cases "gres_data (gres_state_node sg)")
    case None
    with Some show ?thesis by (simp add: select_and_set_node_def)
  next
    case (Some na)
    with \<open>gres_data (gres_state_job sg) = Some ja\<close> show ?thesis
      unfolding select_and_set_node_def Let_def
      by (simp add: split_beta heap_frame_update outputs_cleared_dispatch
          outputs_cleared_fresh outputs_cleared_count outputs_cleared_prepare)
  qed
qed

lemma for_each_sock_gres_frame:
  "heap_frame (fst st) (fst (for_each_sock_gres ev cf job mc sgs st))"
proof (induction sgs arbitrary: st)
  case Nil
  then show ?case by simp
next
  case (Cons sg sgs)
  from select_and_set_node_frame [of st ev cf job mc sg]
    Cons [of "snd (select_and_set_node ev cf job mc sg st)"]
  show ?case by (auto simp: split_beta intro: heap_frame_trans)
qed

lemma node_loop_frame:
  "heap_frame (fst st) (fst (node_loop ev cf job mc tbl idxs jni rem st))"
proof (induction idxs arbitrary: jni rem st)
  case Nil
  then show ?case by simp
next
  case (Cons i idxs)
  obtain h fini r tasks where st: "st = (h, fini, r, tasks)" by (cases st)
  show ?case
  proof (cases "r = SLURM_SUCCESS")
    case False
    with st show ?thesis by simp
  next
    case True
    let ?args = "\<lparr>job_node_inx = jni, node_inx = i, rem_node_cnt = rem,
                    node_ptr = node_record_table ev i, job_fini = fini, a_rc = r,
                    tasks_per_node_socket = tasks, used_cores_on_sock = None,
                    used_core_cnt = 0, used_sock_cnt = 0, a_sock_cnt = 0\<rparr>"
    let ?p = "for_each_sock_gres ev cf job mc (tbl jni) (h, ?args)"
    have 1: "heap_frame h (fst ?p)" using for_each_sock_gres_frame [of "(h, ?args)"] by simp
    have 2: "heap_frame (fst ?p) (fst (node_loop ev cf job mc tbl idxs (Suc jni) (rem - 1)
        (fst ?p, job_fini (snd ?p), a_rc (snd ?p), tasks_per_node_socket (snd ?p))))"
      using Cons [of "(fst ?p, job_fini (snd ?p), a_rc (snd ?p), tasks_per_node_socket (snd ?p))"]
      by simp
    from heap_frame_trans [OF 1 2] st True show ?thesis by (simp add: split_beta Let_def)
  qed
qed

lemma pass2_records_frame: "heap_frame (fst st) (fst (pass2_records i sgs st))"
proof (induction sgs arbitrary: st)
  case Nil
  then show ?case by simp
next
  case (Cons sg sgs)
  obtain h fini where st: "st = (h, fini)" by (cases st)
  show ?case
  proof (cases "gres_data (gres_state_job sg)")
    case None
    with st Cons [of "(h, fini)"] show ?thesis by simp
  next
    case (Some ja)
    note ja = this
    show ?thesis
    proof (cases "gres_data (gres_state_node sg)")
      case None
      with st ja Cons [of "(h, fini)"] show ?thesis by simp
    next
      case (Some na)
      let ?r = "set_job_bits2 i sg (node_heap h na) (job_heap h ja)"
      let ?h = "h\<lparr>job_heap := (job_heap h)(ja := snd ?r)\<rparr>"
      have 1: "heap_frame h ?h" by (rule heap_frame_update) (simp add: outputs_cleared_whole)
      have 2: "heap_frame ?h (fst (pass2_records i sgs (?h, f)))" for f
        using Cons [of "(?h, f)"] by simp
      from heap_frame_trans [OF 1 2] st ja Some show ?thesis by (simp add: split_beta)
    qed
  qed
qed

lemma pass2_nodes_frame: "heap_frame (fst st) (fst (pass2_nodes tbl idxs jni st))"
proof (induction idxs arbitrary: jni st)
  case Nil
  then show ?case by simp
next
  case (Cons i idxs)
  obtain h fini where st: "st = (h, fini)" by (cases st)
  let ?p = "pass2_records i (tbl jni) (h, -1)"
  have 1: "heap_frame h (fst ?p)" using pass2_records_frame [of "(h, -1)"] by simp
  have 2: "heap_frame (fst ?p) (fst (pass2_nodes tbl idxs (Suc jni) ?p))"
    by (rule Cons)
  from 1 heap_frame_trans [OF 1 2] st show ?case by (simp add: split_beta)
qed

lemma select_and_set_frame:
  "heap_frame h (snd (gres_select_filter_select_and_set ev cf tbl job mc h))"
proof (cases "job_resrcs job")
  case None
  then show ?thesis by (simp add: gres_select_filter_select_and_set_def)
next
  case (Some jr)
  show ?thesis
  proof (cases "jr_node_bitmap jr")
    case None
    with Some show ?thesis by (simp add: gres_select_filter_select_and_set_def)
  next
    case (Some nodes)
    let ?l = "node_loop ev cf job mc tbl (node_indices nodes) 0 (of_nat (bit_set_count nodes))
                (h, -1, SLURM_SUCCESS, None)"
    have 1: "heap_frame h (fst ?l)"
      using node_loop_frame [of "(h, -1, SLURM_SUCCESS, None)"] by simp
    have 2: "heap_frame (fst ?l) (fst (pass2_nodes tbl (node_indices nodes) 0 (fst ?l, f)))" for f
      using pass2_nodes_frame [of "(fst ?l, f)"] by simp
    from 1 heap_frame_trans [OF 1 2] \<open>job_resrcs job = Some jr\<close> Some show ?thesis
      by (simp add: gres_select_filter_select_and_set_def split_beta)
  qed
qed

lemma sock_gres_frame_phases:
  "sock_gres_frame (note_mem_limit a js sg) = sock_gres_frame sg"
  "sock_gres_frame (fst (bind_socks a acbs sg)) = sock_gres_frame sg"
  "sock_gres_frame (limit_max_node_gres a js sg) = sock_gres_frame sg"
  "sock_gres_frame (cap_by_cpus a cb js sg) = sock_gres_frame sg"
  "sock_gres_frame (cap_by_mem a js sg) = sock_gres_frame sg"
  by (simp_all add: sock_gres_frame_def note_mem_limit_def bind_socks_def
      limit_max_node_gres_def set_max_node_gres_def cap_by_cpus_def cap_by_mem_def Let_def
      split_beta split: option.splits)

lemma filter_one_frame:
  "sock_gres_frame (fst (snd (filter_one sharing a cb js sg acbs ag ng))) = sock_gres_frame sg"
  by (simp add: filter_one_def Let_def split_beta sock_gres_frame_phases)

lemma filter_loop_frame:
  "filter_loop sharing a cb h sgs acbs ag ng = (rc, sgs', ag', ng') \<Longrightarrow>
   map sock_gres_frame sgs' = map sock_gres_frame sgs"
proof (induction sgs arbitrary: acbs ag ng rc sgs' ag' ng')
  case Nil
  then show ?case by simp
next
  case (Cons sg rest)
  obtain rj sg1 acbs1 ag1 ng1 where
    one: "filter_one sharing a cb (js_of h sg) sg acbs ag ng = (rj, sg1, acbs1, ag1, ng1)"
    by (metis prod_cases5)
  have sg1: "sock_gres_frame sg1 = sock_gres_frame sg"
    using filter_one_frame [of sharing a cb "js_of h sg" sg acbs ag ng] one by simp
  show ?case
  proof (cases rj)
    case True
    with one Cons.prems sg1 show ?thesis by auto
  next
    case False
    obtain rc2 rest2 ag2 ng2 where
      two: "filter_loop sharing a cb h rest acbs1 ag1 ng1 = (rc2, rest2, ag2, ng2)"
      by (metis prod_cases4)
    from Cons.prems one False two have eq: "sgs' = sg1 # rest2" by auto
    from Cons.IH [OF two] sg1 eq show ?thesis by simp
  qed
qed

lemma remove_unusable_frame:
  assumes "gres_select_filter_remove_unusable sharing h sgl a cb = (rc, sgl', ag, ng)"
  shows "map_option (map sock_gres_frame) sgl' = map_option (map sock_gres_frame) sgl"
proof (cases "cb = None \<or> sgl = None \<or> length (the sgl) = 0")
  case True
  with assms show ?thesis
    by (auto simp: gres_select_filter_remove_unusable_def split: option.splits)
next
  case False
  then obtain c sgs where c: "cb = Some c" "sgl = Some sgs" "length sgs \<noteq> 0" by auto
  obtain rc2 sgs2 ag2 ng2 where
    l: "filter_loop sharing a c h sgs None 0 0 = (rc2, sgs2, ag2, ng2)"
    by (metis prod_cases4)
  from assms c l have "sgl' = Some sgs2"
    by (simp add: gres_select_filter_remove_unusable_def)
  with filter_loop_frame [OF l] c show ?thesis by simp
qed

section \<open>Claims about the entry points\<close>

text \<open>
  C10. Without \<open>job_resrcs\<close>, or without its \<open>node_bitmap\<close>, the selection returns
  \<open>SLURM_ERROR\<close> and the heap is the one it was given: no output field is written.
\<close>

theorem select_and_set_no_allocation:
  assumes "job_resrcs job = None \<or>
           (\<exists>jr. job_resrcs job = Some jr \<and> jr_node_bitmap jr = None)"
  shows "gres_select_filter_select_and_set ev cf tbl job mc h = (SLURM_ERROR, h)"
  using assms by (auto simp: gres_select_filter_select_and_set_def)

theorem select_and_set_no_allocation_witness:
  "gres_select_filter_select_and_set ex_env (ex_conf False False) (\<lambda>_. [ex_gpu_sg])
     (ex_job\<lparr>job_resrcs := None\<rparr>) None (ex_heap (ex_js\<lparr>gres_per_node := 2\<rparr>) ex_gpu_ns) =
     (SLURM_ERROR, ex_heap (ex_js\<lparr>gres_per_node := 2\<rparr>) ex_gpu_ns) \<and>
   gres_select_filter_select_and_set ex_env (ex_conf False False) (\<lambda>_. [ex_gpu_sg])
     (ex_job\<lparr>job_resrcs := Some (ex_job_res\<lparr>jr_node_bitmap := None\<rparr>)\<rparr>) None
     (ex_heap (ex_js\<lparr>gres_per_node := 2\<rparr>) ex_gpu_ns) =
     (SLURM_ERROR, ex_heap (ex_js\<lparr>gres_per_node := 2\<rparr>) ex_gpu_ns)"
  using select_and_set_no_allocation [of "ex_job\<lparr>job_resrcs := None\<rparr>"]
    select_and_set_no_allocation
      [of "ex_job\<lparr>job_resrcs := Some (ex_job_res\<lparr>jr_node_bitmap := None\<rparr>)\<rparr>"]
  by (simp add: ex_job_def ex_job_res_def)

end
